theory Spec2Isabelle
  imports Complex_Main "HOL-Library.Word" "HOL-Library.Multiset"
begin

chapter \<open>The model\<close>

text \<open>
  The CUDA kernels of \<^verbatim>\<open>customManyParticle.cu\<close> and the guard of
  \<^verbatim>\<open>ReferenceGayBerneForce::calculateForce\<close>, as functions of HOL.

  Conventions.  A device array is a total function from the slot index to the value
  stored there (global memory as a store), so that a read of a padded slot yields
  whatever the memory holds.  Values of the source type \<^verbatim>\<open>real\<close> are real
  numbers: rounding is not modelled.  Indices and counters of type \<^verbatim>\<open>int\<close>
  that never go negative are natural numbers, assumed to stay within 32 bits; the
  \<^verbatim>\<open>unsigned int\<close> and \<^verbatim>\<open>unsigned long long\<close> cells whose wrap-around
  matters are machine words.  A preprocessor constant of the kernels
  (\<^verbatim>\<open>NUM_ATOMS\<close>, \<^verbatim>\<open>TILE_SIZE\<close>, ...) is a field of a configuration
  record, a compile-time switch (\<^verbatim>\<open>USE_PERIODIC\<close>, \<^verbatim>\<open>USE_EXCLUSIONS\<close>) a boolean.
\<close>

section \<open>Vectors and grid-stride loops\<close>

record real3 =
  cx :: real
  cy :: real
  cz :: real

record real4 =
  vx :: real
  vy :: real
  vz :: real
  vw :: real

definition make_real4 :: "real \<Rightarrow> real \<Rightarrow> real \<Rightarrow> real \<Rightarrow> real4" where
  "make_real4 a b c d = \<lparr>vx = a, vy = b, vz = c, vw = d\<rparr>"


definition sub4 :: "real4 \<Rightarrow> real4 \<Rightarrow> real4" where
  "sub4 a b = make_real4 (vx a - vx b) (vy a - vy b) (vz a - vz b) (vw a - vw b)"


text \<open>
  The values that the loop variable of
  \<^verbatim>\<open>for (i = start; i < bound; i += stride)\<close> takes, in order.  A kernel is always
  launched with at least one block of at least one thread, so a stride is positive; with
  a stride of zero the function yields no value.
\<close>

function strided :: "nat \<Rightarrow> nat \<Rightarrow> nat \<Rightarrow> nat list" where
  "strided start stride bound =
     (if start < bound \<and> 0 < stride then start # strided (start + stride) stride bound else [])"
  by pat_completeness auto
termination
  by (relation "measure (\<lambda>(start, stride, bound). bound - start)") auto

declare strided.simps [simp del]

text \<open>
  The loop \<^verbatim>\<open>for (i = blockIdx.x*blockDim.x+threadIdx.x; i < bound; i += blockDim.x*gridDim.x)\<close>
  over the whole grid of \<open>numThreads = blockDim.x*gridDim.x\<close> threads: the values of
  \<open>i\<close> of thread 0, then those of thread 1, and so on.  Any other order in which the
  threads run is a permutation of this list.
\<close>

definition gridStride :: "nat \<Rightarrow> nat \<Rightarrow> nat list" where
  "gridStride numThreads bound =
     concat (map (\<lambda>thread. strided thread numThreads bound) [0..<numThreads])"

section \<open>Exclusion lookup: \<^verbatim>\<open>isInteractionExcluded\<close>\<close>

text \<open>
  The loop variable \<open>i\<close> runs downwards from \<open>last - 1\<close> and the loop ends once
  \<open>i < first\<close>, so it is an integer that may reach \<open>first - 1\<close>.
\<close>

function exclusionScan :: "(nat \<Rightarrow> int) \<Rightarrow> int \<Rightarrow> int \<Rightarrow> int \<Rightarrow> int \<Rightarrow> bool" where
  "exclusionScan exclusions atom1 atom2 first i =
     (if i \<ge> first then
        (let excluded = exclusions (nat i) in
         if excluded = atom2 then True
         else if excluded \<le> atom1 then False
         else exclusionScan exclusions atom1 atom2 first (i - 1))
      else False)"
  by pat_completeness auto
termination
  by (relation "measure (\<lambda>(exclusions, atom1, atom2, first, i). nat (i - first + 1))") auto

declare exclusionScan.simps [simp del]

definition isInteractionExcluded :: "int \<Rightarrow> int \<Rightarrow> (nat \<Rightarrow> int) \<Rightarrow> (nat \<Rightarrow> int) \<Rightarrow> bool" where
  "isInteractionExcluded atom1 atom2 exclusions exclusionStartIndex =
     (let first = exclusionStartIndex (nat atom1);
          last = exclusionStartIndex (nat (atom1 + 1))
      in exclusionScan exclusions atom1 atom2 first (last - 1))"

text \<open>The segment \<open>[first, lasti)\<close> of the exclusion array is sorted in ascending order.\<close>

definition segmentSorted :: "(nat \<Rightarrow> int) \<Rightarrow> int \<Rightarrow> int \<Rightarrow> bool" where
  "segmentSorted exclusions first lasti =
     (\<forall>k l. first \<le> k \<and> k \<le> l \<and> l < lasti \<longrightarrow> exclusions (nat k) \<le> exclusions (nat l))"

text \<open>The indices stored in the segment \<open>[first, lasti)\<close>.\<close>

definition segmentEntries :: "(nat \<Rightarrow> int) \<Rightarrow> int \<Rightarrow> int \<Rightarrow> int set" where
  "segmentEntries exclusions first lasti = {exclusions (nat k) | k. first \<le> k \<and> k < lasti}"

text \<open>A small exclusion table: particle 0 excludes 1 and 3, particle 1 excludes 0 and 2.\<close>

definition exampleExclusions :: "nat \<Rightarrow> int" where
  "exampleExclusions k = (if k = 0 then 1 else if k = 1 then 3 else if k = 2 then 0 else 2)"

definition exampleExclusionStartIndex :: "nat \<Rightarrow> int" where
  "exampleExclusionStartIndex a = (if a = 0 then 0 else if a = 1 then 2 else 4)"

section \<open>The fixed-point force buffer: \<^verbatim>\<open>storeForce\<close>\<close>

type_synonym u64 = "64 word"

text \<open>
  \<^verbatim>\<open>static_cast<unsigned long long>((long long) (f*0x100000000))\<close>: the product is
  truncated towards zero by the conversion to \<^verbatim>\<open>long long\<close>, and the conversion to
  \<^verbatim>\<open>unsigned long long\<close> keeps the 64 bits of the two's complement.
\<close>

definition truncateToZero :: "real \<Rightarrow> int" where
  "truncateToZero r = (if r \<ge> 0 then \<lfloor>r\<rfloor> else \<lceil>r\<rceil>)"

definition toFixedPoint :: "real \<Rightarrow> u64" where
  "toFixedPoint f = word_of_int (truncateToZero (f * 0x100000000))"

text \<open>\<^verbatim>\<open>atomicAdd(&mem[address], val)\<close> on 64-bit cells: one indivisible step.\<close>

definition atomicAdd :: "nat \<Rightarrow> u64 \<Rightarrow> (nat \<Rightarrow> u64) \<Rightarrow> (nat \<Rightarrow> u64)" where
  "atomicAdd address val mem = mem(address := mem address + val)"

definition storeForce :: "nat \<Rightarrow> nat \<Rightarrow> real3 \<Rightarrow> (nat \<Rightarrow> u64) \<Rightarrow> (nat \<Rightarrow> u64)" where
  "storeForce PADDED_NUM_ATOMS atom force forceBuffers =
     (let forceBuffers = atomicAdd atom (toFixedPoint (cx force)) forceBuffers;
          forceBuffers = atomicAdd (atom + PADDED_NUM_ATOMS) (toFixedPoint (cy force)) forceBuffers
      in atomicAdd (atom + 2 * PADDED_NUM_ATOMS) (toFixedPoint (cz force)) forceBuffers)"

text \<open>The three atomic additions that one call of \<open>storeForce\<close> issues, in program order.\<close>

definition storeForceAdds :: "nat \<Rightarrow> nat \<times> real3 \<Rightarrow> (nat \<times> u64) list" where
  "storeForceAdds PADDED_NUM_ATOMS call =
     (case call of (atom, force) \<Rightarrow>
        [(atom, toFixedPoint (cx force)),
         (atom + PADDED_NUM_ATOMS, toFixedPoint (cy force)),
         (atom + 2 * PADDED_NUM_ATOMS, toFixedPoint (cz force))])"

text \<open>
  A run of the device on the force buffer: the atomic additions of all threads, in the
  order in which the memory system performs them.
\<close>

definition runAdds :: "(nat \<times> u64) list \<Rightarrow> (nat \<Rightarrow> u64) \<Rightarrow> (nat \<Rightarrow> u64)" where
  "runAdds adds forceBuffers = fold (\<lambda>(address, val). atomicAdd address val) adds forceBuffers"

text \<open>The calls of \<open>storeForce\<close> run one after the other.\<close>

definition runCalls :: "nat \<Rightarrow> (nat \<times> real3) list \<Rightarrow> (nat \<Rightarrow> u64) \<Rightarrow> (nat \<Rightarrow> u64)" where
  "runCalls PADDED_NUM_ATOMS calls forceBuffers =
     fold (\<lambda>(atom, force). storeForce PADDED_NUM_ATOMS atom force) calls forceBuffers"

definition exampleForceA :: real3 where
  "exampleForceA = \<lparr>cx = 1 / 2, cy = - 1 / 4, cz = 3\<rparr>"

definition exampleForceB :: real3 where
  "exampleForceB = \<lparr>cx = - 5 / 2, cy = 0, cz = 1 / 8\<rparr>"

section \<open>The interaction kernel: \<^verbatim>\<open>computeInteraction\<close>\<close>

text \<open>
  The kernel is assembled from code fragments that the host generates for the energy
  expression (\<^verbatim>\<open>NUM_CANDIDATE_COMBINATIONS\<close>, \<^verbatim>\<open>FIND_ATOMS_FOR_COMBINATION_INDEX\<close>,
  \<^verbatim>\<open>IS_VALID_COMBINATION\<close>, \<^verbatim>\<open>VERIFY_CUTOFF\<close>, \<^verbatim>\<open>COMPUTE_TYPE_INDEX\<close>,
  \<^verbatim>\<open>VERIFY_EXCLUSIONS\<close>, \<^verbatim>\<open>PERMUTE_ATOMS\<close>, \<^verbatim>\<open>LOAD_PARTICLE_DATA\<close>,
  \<^verbatim>\<open>COMPUTE_INTERACTION\<close>).  The fragments are not part of the sources, so the kernel
  takes them as parameters:
  \<^item> \<open>numCandidateCombinations numNeighbors\<close> is the value of \<^verbatim>\<open>NUM_CANDIDATE_COMBINATIONS\<close>;
  \<^item> \<open>findAtomsForCombinationIndex p1 numNeighbors index\<close> is the list of particles
    \<open>p1, p2, ...\<close> that \<^verbatim>\<open>FIND_ATOMS_FOR_COMBINATION_INDEX\<close> selects;
  \<^item> \<open>isValidCombination\<close>, \<open>verifyCutoff\<close> and \<open>verifyExclusions\<close> give the value of
    \<^verbatim>\<open>includeInteraction\<close> after the fragment, and \<open>typeOrder\<close> the value of
    \<^verbatim>\<open>orderIndex[COMPUTE_TYPE_INDEX]\<close>;
  \<^item> \<open>interactionEnergy\<close> is what \<^verbatim>\<open>COMPUTE_INTERACTION\<close> adds to the
    thread's \<^verbatim>\<open>energy\<close> for the selected particles.
  The parameter \<open>numAtoms\<close> of the functions below is the constant \<^verbatim>\<open>NUM_ATOMS\<close>.
\<close>

record interactionCode =
  USE_CUTOFF :: bool
  USE_FILTERS :: bool
  USE_EXCLUSIONS_I :: bool
  numCandidateCombinations :: "nat \<Rightarrow> nat"
  findAtomsForCombinationIndex :: "nat \<Rightarrow> nat \<Rightarrow> nat \<Rightarrow> nat list"
  isValidCombination :: "nat list \<Rightarrow> bool"
  verifyCutoff :: "nat list \<Rightarrow> bool"
  typeOrder :: "nat list \<Rightarrow> int"
  verifyExclusions :: "nat list \<Rightarrow> bool"
  interactionEnergy :: "nat list \<Rightarrow> real"

text \<open>The final value of \<^verbatim>\<open>includeInteraction\<close> for the selected particles.\<close>

definition includeInteraction :: "interactionCode \<Rightarrow> nat list \<Rightarrow> bool" where
  "includeInteraction code atoms =
     (let include = isValidCombination code atoms;
          include = (if USE_CUTOFF code \<and> include then verifyCutoff code atoms else include);
          include = (if USE_FILTERS code \<and> typeOrder code atoms = - 1 then False else include);
          include = (if USE_EXCLUSIONS_I code \<and> include then verifyExclusions code atoms
                     else include)
      in include)"

text \<open>
  The interactions that the thread \<open>threadIdx\<close> of block \<open>blockIdx\<close> computes, in the
  order of its two loops: each with the anchor \<open>p1\<close> and the selected particles.
\<close>

definition workerInteractions ::
  "interactionCode \<Rightarrow> nat \<Rightarrow> nat \<Rightarrow> nat \<Rightarrow> nat \<Rightarrow> nat \<Rightarrow> (nat \<times> nat list) list" where
  "workerInteractions code numAtoms gridDim blockDim blockIdx threadIdx =
     concat (map (\<lambda>p1.
        let numNeighbors = numAtoms - p1 - 1;
            numCombinations = numCandidateCombinations code numNeighbors
        in concat (map (\<lambda>index.
             let atoms = findAtomsForCombinationIndex code p1 numNeighbors index
             in if includeInteraction code atoms then [(p1, atoms)] else [])
           (strided threadIdx blockDim numCombinations)))
       (strided blockIdx gridDim numAtoms))"

text \<open>The value of the thread's variable \<^verbatim>\<open>energy\<close> after its loops.\<close>

definition workerEnergy :: "interactionCode \<Rightarrow> nat \<Rightarrow> nat \<Rightarrow> nat \<Rightarrow> nat \<Rightarrow> nat \<Rightarrow> real" where
  "workerEnergy code numAtoms gridDim blockDim blockIdx threadIdx =
     fold (\<lambda>(p1, atoms) energy. energy + interactionEnergy code atoms)
       (workerInteractions code numAtoms gridDim blockDim blockIdx threadIdx) 0"

text \<open>The threads of the grid, block by block.\<close>

definition workers :: "nat \<Rightarrow> nat \<Rightarrow> (nat \<times> nat) list" where
  "workers gridDim blockDim =
     concat (map (\<lambda>blockIdx. map (\<lambda>threadIdx. (blockIdx, threadIdx)) [0..<blockDim]) [0..<gridDim])"

text \<open>
  The last statement of a thread,
  \<^verbatim>\<open>energyBuffer[blockIdx.x*blockDim.x+threadIdx.x] += energy\<close>, and the effect of the
  kernel on the energy buffer: that statement for every thread of the grid.
\<close>

definition addWorkerEnergy ::
  "interactionCode \<Rightarrow> nat \<Rightarrow> nat \<Rightarrow> nat \<Rightarrow> nat \<times> nat \<Rightarrow> (nat \<Rightarrow> real) \<Rightarrow> (nat \<Rightarrow> real)" where
  "addWorkerEnergy code numAtoms gridDim blockDim worker energyBuffer =
     (case worker of (blockIdx, threadIdx) \<Rightarrow>
        energyBuffer(blockIdx * blockDim + threadIdx :=
          energyBuffer (blockIdx * blockDim + threadIdx)
          + workerEnergy code numAtoms gridDim blockDim blockIdx threadIdx))"

definition computeInteraction ::
  "interactionCode \<Rightarrow> nat \<Rightarrow> nat \<Rightarrow> nat \<Rightarrow> (nat \<Rightarrow> real) \<Rightarrow> (nat \<Rightarrow> real)" where
  "computeInteraction code numAtoms gridDim blockDim energyBuffer =
     fold (addWorkerEnergy code numAtoms gridDim blockDim) (workers gridDim blockDim) energyBuffer"

text \<open>
  The loop indices \<open>(p1, index)\<close> at which a worker computes an interaction, in the
  order of its two loops, and those of all workers.
\<close>

definition workerIndices ::
  "interactionCode \<Rightarrow> nat \<Rightarrow> nat \<Rightarrow> nat \<Rightarrow> nat \<Rightarrow> nat \<Rightarrow> (nat \<times> nat) list" where
  "workerIndices code numAtoms gridDim blockDim blockIdx threadIdx =
     concat (map (\<lambda>p1.
        map (\<lambda>index. (p1, index))
          (filter (\<lambda>index. includeInteraction code
                     (findAtomsForCombinationIndex code p1 (numAtoms - p1 - 1) index))
             (strided threadIdx blockDim (numCandidateCombinations code (numAtoms - p1 - 1)))))
       (strided blockIdx gridDim numAtoms))"

definition allIndices :: "interactionCode \<Rightarrow> nat \<Rightarrow> nat \<Rightarrow> nat \<Rightarrow> (nat \<times> nat) list" where
  "allIndices code numAtoms gridDim blockDim =
     concat (map (\<lambda>(blockIdx, threadIdx).
               workerIndices code numAtoms gridDim blockDim blockIdx threadIdx)
       (workers gridDim blockDim))"

text \<open>All interactions that the kernel computes, worker by worker.\<close>

definition allInteractions ::
  "interactionCode \<Rightarrow> nat \<Rightarrow> nat \<Rightarrow> nat \<Rightarrow> (nat \<times> nat list) list" where
  "allInteractions code numAtoms gridDim blockDim =
     concat (map (\<lambda>(blockIdx, threadIdx).
               workerInteractions code numAtoms gridDim blockDim blockIdx threadIdx)
       (workers gridDim blockDim))"

subsection \<open>The enumeration of the combinations, from the specification\<close>

text \<open>
  Modelled from the spec: the generated fragments \<^verbatim>\<open>NUM_CANDIDATE_COMBINATIONS\<close>,
  \<^verbatim>\<open>FIND_ATOMS_FOR_COMBINATION_INDEX\<close> and \<^verbatim>\<open>IS_VALID_COMBINATION\<close> are missing
  from the sources.  The specification (section 4.5) has every combination of size
  \<open>G - 1\<close> of the pool of the anchor enumerated by unranking: a linear combination
  index is mapped to the unique ascending index tuple it stands for, over binomial
  coefficients.  \<open>unrank n k index\<close> is the ascending \<open>k\<close>-tuple of positions below
  \<open>n\<close> with the given index in lexicographic order.
\<close>

fun unrank :: "nat \<Rightarrow> nat \<Rightarrow> nat \<Rightarrow> nat list" where
  "unrank n 0 index = []"
| "unrank 0 (Suc k) index = []"
| "unrank (Suc n) (Suc k) index =
     (if index < n choose k then 0 # map Suc (unrank n k index)
      else map Suc (unrank n (Suc k) (index - (n choose k))))"

text \<open>
  Modelled from the spec: the pool of the anchor \<open>p1\<close> are the \<open>numNeighbors\<close> indices
  greater than \<open>p1\<close>, so the position \<open>a\<close> of the pool is the particle \<open>p1 + 1 + a\<close>;
  there are \<open>numNeighbors choose (G - 1)\<close> combinations, and every one of them is
  a valid combination.  The other fragments stay parameters.
\<close>

definition specEnumeration :: "nat \<Rightarrow> interactionCode \<Rightarrow> interactionCode" where
  "specEnumeration G code = code
     \<lparr>numCandidateCombinations := (\<lambda>numNeighbors. numNeighbors choose (G - 1)),
      findAtomsForCombinationIndex := (\<lambda>p1 numNeighbors index.
         p1 # map (\<lambda>a. p1 + 1 + a) (unrank numNeighbors (G - 1) index)),
      isValidCombination := (\<lambda>atoms. True)\<rparr>"

text \<open>Test data: no cutoff, no filters, no exclusions, and an energy of 1 per interaction.\<close>

definition exampleCode :: interactionCode where
  "exampleCode = \<lparr>USE_CUTOFF = False, USE_FILTERS = False, USE_EXCLUSIONS_I = False,
     numCandidateCombinations = (\<lambda>n. n), findAtomsForCombinationIndex = (\<lambda>p1 n index. [p1, p1 + 1 + index]),
     isValidCombination = (\<lambda>atoms. True), verifyCutoff = (\<lambda>atoms. True),
     typeOrder = (\<lambda>atoms. 0), verifyExclusions = (\<lambda>atoms. True),
     interactionEnergy = (\<lambda>atoms. 1)\<rparr>"

section \<open>The neighbor list: device memory and configuration\<close>

text \<open>
  The preprocessor constants of the neighbor list kernels.  \<open>CUTOFF_SQUARED\<close> is the
  square of the cutoff radius; \<open>NUM_BLOCKS\<close> is the number of tiles of \<open>TILE_SIZE\<close>
  particles.
\<close>

record config =
  NUM_ATOMS :: nat
  TILE_SIZE :: nat
  NUM_BLOCKS :: nat
  CUTOFF_SQUARED :: real
  USE_PERIODIC :: bool
  USE_EXCLUSIONS :: bool

text \<open>
  The arrays in global memory that the neighbor list kernels write.  A pair of
  \<^verbatim>\<open>neighborPairs\<close> (an \<^verbatim>\<open>int2\<close>) is a pair of particle indices.
\<close>

record deviceMemory =
  blockCenter :: "nat \<Rightarrow> real4"
  blockBoundingBox :: "nat \<Rightarrow> real4"
  neighborPairs :: "nat \<Rightarrow> nat \<times> nat"
  numNeighborPairs :: nat
  numNeighborsForAtom :: "nat \<Rightarrow> nat"
  neighborStartIndex :: "nat \<Rightarrow> nat"
  neighbors :: "nat \<Rightarrow> nat"

section \<open>Displacement of two particles: \<^verbatim>\<open>delta\<close>\<close>

definition delta :: "bool \<Rightarrow> real4 \<Rightarrow> real4 \<Rightarrow> real4 \<Rightarrow> real4 \<Rightarrow> real4" where
  "delta periodic vec1 vec2 periodicBoxSize invPeriodicBoxSize =
     (let result = make_real4 (vx vec1 - vx vec2) (vy vec1 - vy vec2) (vz vec1 - vz vec2) 0;
          result = (if periodic then result
            \<lparr>vx := vx result - of_int \<lfloor>vx result * vx invPeriodicBoxSize + 0.5\<rfloor> * vx periodicBoxSize,
             vy := vy result - of_int \<lfloor>vy result * vy invPeriodicBoxSize + 0.5\<rfloor> * vy periodicBoxSize,
             vz := vz result - of_int \<lfloor>vz result * vz invPeriodicBoxSize + 0.5\<rfloor> * vz periodicBoxSize\<rparr>
            else result)
      in result\<lparr>vw := vx result * vx result + vy result * vy result + vz result * vz result\<rparr>)"

section \<open>Bounding boxes of the tiles: \<^verbatim>\<open>findBlockBounds\<close>\<close>







section \<open>Neighbor discovery: \<^verbatim>\<open>findNeighbors\<close>\<close>

text \<open>
  The test on the bounding boxes of the tiles \<open>block1\<close> and \<open>block2\<close>: the condition
  of the \<^verbatim>\<open>if\<close> that guards the loop over the particles of \<open>block2\<close>.
\<close>

definition tileNear :: "config \<Rightarrow> real4 \<Rightarrow> real4 \<Rightarrow> deviceMemory \<Rightarrow> nat \<Rightarrow> nat \<Rightarrow> bool" where
  "tileNear cfg periodicBoxSize invPeriodicBoxSize mem block1 block2 =
     (let blockCenter1 = blockCenter mem block1;
          blockSize1 = blockBoundingBox mem block1;
          blockCenter2 = blockCenter mem block2;
          blockSize2 = blockBoundingBox mem block2;
          blockDelta = sub4 blockCenter1 blockCenter2;
          blockDelta = (if USE_PERIODIC cfg then blockDelta
            \<lparr>vx := vx blockDelta - of_int \<lfloor>vx blockDelta * vx invPeriodicBoxSize + 0.5\<rfloor>
                                   * vx periodicBoxSize,
             vy := vy blockDelta - of_int \<lfloor>vy blockDelta * vy invPeriodicBoxSize + 0.5\<rfloor>
                                   * vy periodicBoxSize,
             vz := vz blockDelta - of_int \<lfloor>vz blockDelta * vz invPeriodicBoxSize + 0.5\<rfloor>
                                   * vz periodicBoxSize\<rparr>
            else blockDelta);
          blockDelta = blockDelta
            \<lparr>vx := max 0 (\<bar>vx blockDelta\<bar> - vx blockSize1 - vx blockSize2),
             vy := max 0 (\<bar>vy blockDelta\<bar> - vy blockSize1 - vy blockSize2),
             vz := max 0 (\<bar>vz blockDelta\<bar> - vz blockSize1 - vz blockSize2)\<rparr>
      in vx blockDelta * vx blockDelta + vy blockDelta * vy blockDelta + vz blockDelta * vz blockDelta
         < CUTOFF_SQUARED cfg)"

text \<open>The decision \<^verbatim>\<open>includeAtom\<close> for the pair of \<open>atom1\<close> and \<open>atom2\<close>.\<close>

definition includeAtom ::
  "config \<Rightarrow> real4 \<Rightarrow> real4 \<Rightarrow> (nat \<Rightarrow> real4) \<Rightarrow> (nat \<Rightarrow> int) \<Rightarrow> (nat \<Rightarrow> int) \<Rightarrow> nat \<Rightarrow> nat \<Rightarrow> bool" where
  "includeAtom cfg periodicBoxSize invPeriodicBoxSize posq exclusions exclusionStartIndex atom1 atom2 =
     (let pos1 = posq atom1;
          pos2 = posq atom2;
          atomDelta = delta (USE_PERIODIC cfg) pos1 pos2 periodicBoxSize invPeriodicBoxSize;
          include = (atom2 > atom1 \<and> atom2 < NUM_ATOMS cfg \<and> vw atomDelta < CUTOFF_SQUARED cfg)
      in if USE_EXCLUSIONS cfg \<and> include
         then include \<and> \<not> isInteractionExcluded (int atom1) (int atom2) exclusions exclusionStartIndex
         else include)"

text \<open>
  The array \<^verbatim>\<open>included\<close> after the loop over the \<open>TILE_SIZE\<close> slots of the tile
  \<open>block2\<close>, from \<open>start = block2*TILE_SIZE\<close> up to \<open>end = (block2+1)*TILE_SIZE\<close>:
  the slots for which \<open>includeAtom\<close> holds, in ascending order.
\<close>

definition tileIncluded ::
  "config \<Rightarrow> real4 \<Rightarrow> real4 \<Rightarrow> (nat \<Rightarrow> real4) \<Rightarrow> (nat \<Rightarrow> int) \<Rightarrow> (nat \<Rightarrow> int) \<Rightarrow> nat \<Rightarrow> nat \<Rightarrow> nat list" where
  "tileIncluded cfg periodicBoxSize invPeriodicBoxSize posq exclusions exclusionStartIndex atom1 block2 =
     filter (includeAtom cfg periodicBoxSize invPeriodicBoxSize posq exclusions exclusionStartIndex atom1)
       [block2 * TILE_SIZE cfg..<(block2 + 1) * TILE_SIZE cfg]"

text \<open>
  Storing a batch: \<^verbatim>\<open>atomicAdd(numNeighborPairs, numIncluded)\<close> reserves the slots from
  \<open>baseIndex\<close>, and the pairs are written only if the whole batch fits the buffer.
\<close>

definition storeIncluded :: "nat \<Rightarrow> nat \<Rightarrow> nat list \<Rightarrow> deviceMemory \<Rightarrow> deviceMemory" where
  "storeIncluded maxNeighborPairs atom1 included mem =
     (let numIncluded = length included;
          baseIndex = numNeighborPairs mem;
          mem = mem\<lparr>numNeighborPairs := baseIndex + numIncluded\<rparr>
      in if baseIndex + numIncluded \<le> maxNeighborPairs
         then mem\<lparr>neighborPairs :=
                fold (\<lambda>i pairs. pairs(baseIndex + i := (atom1, included ! i))) [0..<numIncluded]
                  (neighborPairs mem)\<rparr>
         else mem)"

text \<open>One pass of the loop over \<open>block2\<close>, on the memory and \<^verbatim>\<open>totalNeighborsForAtom1\<close>.\<close>

definition findNeighbors_block ::
  "config \<Rightarrow> real4 \<Rightarrow> real4 \<Rightarrow> (nat \<Rightarrow> real4) \<Rightarrow> nat \<Rightarrow> (nat \<Rightarrow> int) \<Rightarrow> (nat \<Rightarrow> int) \<Rightarrow> nat \<Rightarrow> nat
   \<Rightarrow> deviceMemory \<times> nat \<Rightarrow> deviceMemory \<times> nat" where
  "findNeighbors_block cfg periodicBoxSize invPeriodicBoxSize posq maxNeighborPairs exclusions
       exclusionStartIndex atom1 block2 state =
     (case state of (mem, totalNeighborsForAtom1) \<Rightarrow>
        if tileNear cfg periodicBoxSize invPeriodicBoxSize mem (atom1 div TILE_SIZE cfg) block2 then
          (let included = tileIncluded cfg periodicBoxSize invPeriodicBoxSize posq exclusions
                            exclusionStartIndex atom1 block2;
               numIncluded = length included
           in if numIncluded > 0
              then (storeIncluded maxNeighborPairs atom1 included mem,
                    totalNeighborsForAtom1 + numIncluded)
              else (mem, totalNeighborsForAtom1))
        else (mem, totalNeighborsForAtom1))"

text \<open>The body of the loop over \<open>atom1\<close>.\<close>

definition findNeighbors_atom ::
  "config \<Rightarrow> real4 \<Rightarrow> real4 \<Rightarrow> (nat \<Rightarrow> real4) \<Rightarrow> nat \<Rightarrow> (nat \<Rightarrow> int) \<Rightarrow> (nat \<Rightarrow> int) \<Rightarrow> nat
   \<Rightarrow> deviceMemory \<Rightarrow> deviceMemory" where
  "findNeighbors_atom cfg periodicBoxSize invPeriodicBoxSize posq maxNeighborPairs exclusions
       exclusionStartIndex atom1 mem =
     (let block1 = atom1 div TILE_SIZE cfg in
      case fold (findNeighbors_block cfg periodicBoxSize invPeriodicBoxSize posq maxNeighborPairs
                   exclusions exclusionStartIndex atom1)
             [block1..<NUM_BLOCKS cfg] (mem, 0)
      of (mem, totalNeighborsForAtom1) \<Rightarrow>
        mem\<lparr>numNeighborsForAtom := (numNeighborsForAtom mem)(atom1 := totalNeighborsForAtom1)\<rparr>)"

text \<open>
  The kernel.  Every particle below \<open>NUM_ATOMS\<close> is the \<open>atom1\<close> of one pass of one
  thread; the passes of different threads meet only in the atomic reservation of slots,
  so a run of the kernel is the passes in some order \<open>sched\<close>, a permutation of
  \<open>gridStride (blockDim*gridDim) NUM_ATOMS\<close>.
\<close>

definition findNeighbors ::
  "nat list \<Rightarrow> config \<Rightarrow> real4 \<Rightarrow> real4 \<Rightarrow> (nat \<Rightarrow> real4) \<Rightarrow> nat \<Rightarrow> (nat \<Rightarrow> int) \<Rightarrow> (nat \<Rightarrow> int)
   \<Rightarrow> deviceMemory \<Rightarrow> deviceMemory" where
  "findNeighbors sched cfg periodicBoxSize invPeriodicBoxSize posq maxNeighborPairs exclusions
       exclusionStartIndex mem =
     fold (findNeighbors_atom cfg periodicBoxSize invPeriodicBoxSize posq maxNeighborPairs
             exclusions exclusionStartIndex) sched mem"

text \<open>
  The particles that the passes over \<open>block2\<close> accept for \<open>atom1\<close>, in the order of
  the loop, given the bounding boxes in \<open>mem\<close>.
\<close>

definition acceptedFor ::
  "config \<Rightarrow> real4 \<Rightarrow> real4 \<Rightarrow> (nat \<Rightarrow> real4) \<Rightarrow> (nat \<Rightarrow> int) \<Rightarrow> (nat \<Rightarrow> int) \<Rightarrow> deviceMemory
   \<Rightarrow> nat \<Rightarrow> nat list" where
  "acceptedFor cfg periodicBoxSize invPeriodicBoxSize posq exclusions exclusionStartIndex mem atom1 =
     concat (map (\<lambda>block2.
        if tileNear cfg periodicBoxSize invPeriodicBoxSize mem (atom1 div TILE_SIZE cfg) block2
        then tileIncluded cfg periodicBoxSize invPeriodicBoxSize posq exclusions exclusionStartIndex
               atom1 block2
        else [])
       [atom1 div TILE_SIZE cfg..<NUM_BLOCKS cfg])"

text \<open>
  The reference: the pairs \<open>(i, j)\<close> with \<open>i < j < NUM_ATOMS\<close> whose squared distance
  (of the nearest periodic images, when periodic) is below the squared cutoff and that
  are not excluded, found by testing every pair.
\<close>

definition bruteForcePairs ::
  "config \<Rightarrow> real4 \<Rightarrow> real4 \<Rightarrow> (nat \<Rightarrow> real4) \<Rightarrow> (nat \<Rightarrow> int) \<Rightarrow> (nat \<Rightarrow> int) \<Rightarrow> (nat \<times> nat) set" where
  "bruteForcePairs cfg periodicBoxSize invPeriodicBoxSize posq exclusions exclusionStartIndex =
     {(i, j). i < j \<and> j < NUM_ATOMS cfg
        \<and> vw (delta (USE_PERIODIC cfg) (posq i) (posq j) periodicBoxSize invPeriodicBoxSize)
            < CUTOFF_SQUARED cfg
        \<and> \<not> (USE_EXCLUSIONS cfg
             \<and> int j \<in> segmentEntries exclusions (exclusionStartIndex i) (exclusionStartIndex (i + 1)))}"

text \<open>
  \<open>r\<close> is the displacement \<open>d\<close> between nearest periodic images along an axis of period
  \<open>L\<close>: a shift of \<open>d\<close> by a multiple of \<open>L\<close>, and no such shift is shorter.
\<close>

definition nearestImage :: "real \<Rightarrow> real \<Rightarrow> real \<Rightarrow> bool" where
  "nearestImage L d r = ((\<exists>k::int. r = d + of_int k * L) \<and> (\<forall>k::int. \<bar>r\<bar> \<le> \<bar>d + of_int k * L\<bar>))"

section \<open>Assembly of the neighbor list: \<^verbatim>\<open>copyPairsToNeighborList\<close>\<close>

text \<open>
  One pass of the loop, for the pair at \<open>index\<close>: the atomic increment of the cursor of
  \<open>pair.x\<close> yields the offset, and \<open>pair.y\<close> is written there.
\<close>

definition copyPair :: "nat \<Rightarrow> deviceMemory \<Rightarrow> deviceMemory" where
  "copyPair index mem =
     (let pair = neighborPairs mem index;
          startIndex = neighborStartIndex mem (fst pair);
          offset = numNeighborsForAtom mem (fst pair);
          mem = mem\<lparr>numNeighborsForAtom := (numNeighborsForAtom mem)(fst pair := offset + 1)\<rparr>
      in mem\<lparr>neighbors := (neighbors mem)(startIndex + offset := snd pair)\<rparr>)"

text \<open>
  The kernel.  The passes of all threads meet only in the atomic increments, so a run is
  the passes in some order \<open>sched\<close>, a permutation of
  \<open>gridStride (blockDim*gridDim) actualPairs\<close>.
\<close>

definition copyPairsToNeighborList :: "nat list \<Rightarrow> nat \<Rightarrow> deviceMemory \<Rightarrow> deviceMemory" where
  "copyPairsToNeighborList sched maxNeighborPairs mem =
     (let actualPairs = numNeighborPairs mem in
      if actualPairs > maxNeighborPairs then mem
      else fold copyPair sched mem)"

text \<open>
  The candidate pairs with first component \<open>i\<close>: their indices in the pair buffer, their
  number, and their second components.
\<close>

definition pairIndicesOf :: "deviceMemory \<Rightarrow> nat \<Rightarrow> nat list" where
  "pairIndicesOf mem i =
     filter (\<lambda>index. fst (neighborPairs mem index) = i) [0..<numNeighborPairs mem]"

definition pairCount :: "deviceMemory \<Rightarrow> nat \<Rightarrow> nat" where
  "pairCount mem i = length (pairIndicesOf mem i)"

definition partnersOf :: "deviceMemory \<Rightarrow> nat \<Rightarrow> nat multiset" where
  "partnersOf mem i = mset (map (\<lambda>index. snd (neighborPairs mem index)) (pairIndicesOf mem i))"

text \<open>
  Test data: three particles with the candidate pairs \<open>(0,1)\<close>, \<open>(1,2)\<close>, \<open>(0,2)\<close> in the
  pair buffer, the start indices 0, 2, 3, 3 and all cursors zero.
\<close>

definition examplePairs :: deviceMemory where
  "examplePairs = \<lparr>blockCenter = (\<lambda>b. make_real4 0 0 0 0),
     blockBoundingBox = (\<lambda>b. make_real4 0 0 0 0),
     neighborPairs = (\<lambda>index. if index = 0 then (0, 1) else if index = 1 then (1, 2) else (0, 2)),
     numNeighborPairs = 3,
     numNeighborsForAtom = (\<lambda>i. 0),
     neighborStartIndex = (\<lambda>i. if i = 0 then 0 else if i = 1 then 2 else 3),
     neighbors = (\<lambda>k. 0)\<rparr>"

text \<open>
  \<open>appended maxPairs ps mem mem'\<close>: \<open>mem'\<close> is \<open>mem\<close> after the batches \<open>ps\<close> have
  been stored.  The counter has grown by their number; a slot of the pair buffer has its
  old content or, within the reserved slots, the pair of that slot; and when all
  batches fit the capacity \<open>maxPairs\<close>, every reserved slot holds its pair.
\<close>

definition appended :: "nat \<Rightarrow> (nat \<times> nat) list \<Rightarrow> deviceMemory \<Rightarrow> deviceMemory \<Rightarrow> bool" where
  "appended maxPairs ps mem mem' \<longleftrightarrow>
     numNeighborPairs mem' = numNeighborPairs mem + length ps
     \<and> blockCenter mem' = blockCenter mem \<and> blockBoundingBox mem' = blockBoundingBox mem
     \<and> neighborStartIndex mem' = neighborStartIndex mem \<and> neighbors mem' = neighbors mem
     \<and> (\<forall>s. neighborPairs mem' s = neighborPairs mem s
            \<or> (numNeighborPairs mem \<le> s \<and> s < numNeighborPairs mem + length ps
                \<and> neighborPairs mem' s = ps ! (s - numNeighborPairs mem)))
     \<and> (numNeighborPairs mem + length ps \<le> maxPairs \<longrightarrow>
          (\<forall>k<length ps. neighborPairs mem' (numNeighborPairs mem + k) = ps ! k))"

text \<open>
  Test data: three particles on the x axis at 0, 1 and 2.5 in tiles of two, so that the
  second tile has one particle and one padding slot (slot 3, which holds a position next
  to particle 1); a cutoff of 2, no periodic box and no exclusions.  \<open>exampleTiles\<close>
  holds the bounding boxes of the two tiles and an empty pair buffer.
\<close>

definition exampleConfig :: config where
  "exampleConfig = \<lparr>NUM_ATOMS = 3, TILE_SIZE = 2, NUM_BLOCKS = 2, CUTOFF_SQUARED = 4,
     USE_PERIODIC = False, USE_EXCLUSIONS = False\<rparr>"

definition examplePosq :: "nat \<Rightarrow> real4" where
  "examplePosq i = make_real4 (if i = 0 then 0 else if i = 1 then 1 else if i = 2 then 5 / 2 else 1) 0 0 0"

definition exampleNoBox :: real4 where
  "exampleNoBox = make_real4 0 0 0 0"

definition exampleTiles :: deviceMemory where
  "exampleTiles = \<lparr>blockCenter = (\<lambda>b. make_real4 (if b = 0 then 1 / 2 else 5 / 2) 0 0 0),
     blockBoundingBox = (\<lambda>b. make_real4 (if b = 0 then 1 / 2 else 0) 0 0 0),
     neighborPairs = (\<lambda>index. (0, 0)),
     numNeighborPairs = 0,
     numNeighborsForAtom = (\<lambda>i. 7),
     neighborStartIndex = (\<lambda>i. 0),
     neighbors = (\<lambda>k. 0)\<rparr>"

text \<open>
  The three axes are treated alike by \<open>delta\<close>, \<open>tileNear\<close> and \<open>extendBox\<close>.  Along
  one axis of period \<open>L\<close> (with \<open>iL\<close> the stored inverse of \<open>L\<close>): the displacement
  that \<open>delta\<close> computes from the coordinates \<open>a\<close> and \<open>b\<close>, and the gap that
  \<open>tileNear\<close> computes from the centers \<open>c1\<close>, \<open>c2\<close> and the half extents \<open>s1\<close>,
  \<open>s2\<close> of two boxes.
\<close>

definition axisDelta :: "bool \<Rightarrow> real \<Rightarrow> real \<Rightarrow> real \<Rightarrow> real \<Rightarrow> real" where
  "axisDelta periodic L iL a b =
     (if periodic then (a - b) - of_int \<lfloor>(a - b) * iL + 0.5\<rfloor> * L else a - b)"




text \<open>The periodic box is well formed: positive edges, with their inverses stored.\<close>

definition boxOK :: "config \<Rightarrow> real4 \<Rightarrow> real4 \<Rightarrow> bool" where
  "boxOK cfg periodicBoxSize invPeriodicBoxSize \<longleftrightarrow>
     (USE_PERIODIC cfg \<longrightarrow>
        0 < vx periodicBoxSize \<and> 0 < vy periodicBoxSize \<and> 0 < vz periodicBoxSize
        \<and> vx invPeriodicBoxSize = 1 / vx periodicBoxSize
        \<and> vy invPeriodicBoxSize = 1 / vy periodicBoxSize
        \<and> vz invPeriodicBoxSize = 1 / vz periodicBoxSize)"






section \<open>Start indices of the neighbor ranges: \<^verbatim>\<open>computeNeighborStartIndices\<close>\<close>

text \<open>
  The kernel runs as a single block of \<open>blockDim\<close> threads.  \<^verbatim>\<open>posBuffer\<close> is the
  shared array, one \<^verbatim>\<open>unsigned int\<close> cell per thread; \<^verbatim>\<open>globalOffset\<close> is a
  private variable, so the state holds one cell of it per thread as well.  The counts are
  converted to \<^verbatim>\<open>unsigned int\<close> when they are loaded, and the 32-bit sum is stored
  into \<^verbatim>\<open>neighborStartIndex\<close>.
\<close>

type_synonym u32 = "32 word"

record scanState =
  posBuffer :: "u32 list"
  globalOffset :: "u32 list"
  memory :: deviceMemory

text \<open>
  One step of the prefix sum.  Every thread reads \<^verbatim>\<open>add\<close>, all threads meet at
  \<^verbatim>\<open>__syncthreads()\<close>, every thread adds to its own cell, and all threads meet
  again: between two barriers no cell is both read and written, so the step is a
  function of the buffer.
\<close>

definition scanStep :: "nat \<Rightarrow> u32 list \<Rightarrow> u32 list" where
  "scanStep step buffer =
     map (\<lambda>threadIdx. buffer ! threadIdx
            + (if threadIdx \<ge> step then buffer ! (threadIdx - step) else 0))
       [0..<length buffer]"

function scanLoop :: "nat \<Rightarrow> u32 list \<Rightarrow> u32 list" where
  "scanLoop step buffer =
     (if step < length buffer \<and> 0 < step then scanLoop (step * 2) (scanStep step buffer)
      else buffer)"
  by pat_completeness auto
termination
  by (relation "measure (\<lambda>(step, buffer). length buffer - step)") (auto simp: scanStep_def)

declare scanLoop.simps [simp del]

text \<open>
  The first statements of a pass of the outer loop, for the thread \<open>threadIdx\<close> and the
  window that starts at \<open>startAtom\<close>: the load of the count into the cell of the thread.
\<close>

definition loadCount :: "config \<Rightarrow> nat \<Rightarrow> nat \<Rightarrow> scanState \<Rightarrow> scanState" where
  "loadCount cfg startAtom threadIdx st =
     (let globalIndex = startAtom + threadIdx in
      st\<lparr>posBuffer := (posBuffer st)
           [threadIdx := (if globalIndex < NUM_ATOMS cfg
                          then of_nat (numNeighborsForAtom (memory st) globalIndex) else 0)]\<rparr>)"

text \<open>
  The last statements of a pass, after the last barrier of the prefix sum: the thread
  writes its result, clears its counter and adds the last cell of the shared buffer to
  its \<^verbatim>\<open>globalOffset\<close>.
\<close>

definition writeBack :: "nat \<Rightarrow> config \<Rightarrow> nat \<Rightarrow> nat \<Rightarrow> scanState \<Rightarrow> scanState" where
  "writeBack blockDim cfg startAtom threadIdx st =
     (let globalIndex = startAtom + threadIdx;
          mem = memory st;
          mem = (if globalIndex < NUM_ATOMS cfg
                 then mem\<lparr>neighborStartIndex := (neighborStartIndex mem)
                        (globalIndex + 1 := unat (posBuffer st ! threadIdx + globalOffset st ! threadIdx))\<rparr>
                 else mem);
          mem = mem\<lparr>numNeighborsForAtom := (numNeighborsForAtom mem)(globalIndex := 0)\<rparr>
      in st\<lparr>memory := mem,
            globalOffset := (globalOffset st)
              [threadIdx := globalOffset st ! threadIdx + posBuffer st ! (blockDim - 1)]\<rparr>)"

text \<open>
  No barrier separates the last statements of a pass from the first statements of the
  next pass: between the last barrier of one prefix sum and the first barrier of the
  next pass, every thread runs \<open>writeBack\<close> for its window and then \<open>loadCount\<close> for the
  next window, and the threads (the warps) are free to do so in any order.  A schedule
  lists these events in the order in which they take place.
\<close>

datatype event = WriteBack nat | LoadNext nat

definition runEvent :: "nat \<Rightarrow> config \<Rightarrow> nat \<Rightarrow> event \<Rightarrow> scanState \<Rightarrow> scanState" where
  "runEvent blockDim cfg startAtom ev st =
     (case ev of
        WriteBack threadIdx \<Rightarrow> writeBack blockDim cfg startAtom threadIdx st
      | LoadNext threadIdx \<Rightarrow> loadCount cfg (startAtom + blockDim) threadIdx st)"

text \<open>
  A schedule is legal when it holds both events of every thread once and every thread
  loads after it has written back.
\<close>

definition legalSchedule :: "nat \<Rightarrow> event list \<Rightarrow> bool" where
  "legalSchedule blockDim sched \<longleftrightarrow>
     mset sched = mset (map WriteBack [0..<blockDim] @ map LoadNext [0..<blockDim])
     \<and> list_all (\<lambda>threadIdx.
           WriteBack threadIdx \<in> set (takeWhile (\<lambda>ev. ev \<noteq> LoadNext threadIdx) sched))
         [0..<blockDim]"

text \<open>The schedule in which every thread has written back before any thread loads.\<close>

definition inOrder :: "nat \<Rightarrow> event list" where
  "inOrder blockDim = map WriteBack [0..<blockDim] @ map LoadNext [0..<blockDim]"

text \<open>
  The schedule of two warps of 32 threads in which the second warp passes through both
  parts before the first warp starts.
\<close>

definition secondWarpFirst :: "event list" where
  "secondWarpFirst = map WriteBack [32..<64] @ map LoadNext [32..<64]
                     @ map WriteBack [0..<32] @ map LoadNext [0..<32]"

text \<open>
  The passes of the outer loop from the window at \<open>startAtom\<close> on, entered when the
  counts of that window are loaded: the prefix sum, then either the events between this
  pass and the next, or, in the last pass, the write-back of every thread.
\<close>

function windows :: "nat \<Rightarrow> config \<Rightarrow> event list \<Rightarrow> nat \<Rightarrow> scanState \<Rightarrow> scanState" where
  "windows blockDim cfg sched startAtom st =
     (let st = st\<lparr>posBuffer := scanLoop 1 (posBuffer st)\<rparr> in
      if startAtom + blockDim < NUM_ATOMS cfg \<and> 0 < blockDim
      then windows blockDim cfg sched (startAtom + blockDim)
             (fold (runEvent blockDim cfg startAtom) sched st)
      else fold (writeBack blockDim cfg startAtom) [0..<blockDim] st)"
  by pat_completeness auto
termination
  by (relation "measure (\<lambda>(blockDim, cfg, sched, startAtom, st). NUM_ATOMS cfg - startAtom)") auto

declare windows.simps [simp del]

text \<open>
  The kernel: the passes, when there is a particle, and the final store of thread 0.
  The shared buffer holds arbitrary values before the first load (here zeros), and
  \<^verbatim>\<open>globalOffset\<close> starts at zero.
\<close>

definition computeNeighborStartIndices ::
  "nat \<Rightarrow> config \<Rightarrow> event list \<Rightarrow> deviceMemory \<Rightarrow> deviceMemory" where
  "computeNeighborStartIndices blockDim cfg sched mem =
     (let st = \<lparr>posBuffer = replicate blockDim 0, globalOffset = replicate blockDim 0, memory = mem\<rparr>;
          mem = (if 0 < NUM_ATOMS cfg
                 then memory (windows blockDim cfg sched 0
                                (fold (loadCount cfg 0) [0..<blockDim] st))
                 else mem)
      in mem\<lparr>neighborStartIndex := (neighborStartIndex mem)(0 := 0)\<rparr>)"

text \<open>Test data: 65 particles with one neighbor each.\<close>

definition exampleCounts :: deviceMemory where
  "exampleCounts = \<lparr>blockCenter = (\<lambda>b. make_real4 0 0 0 0),
     blockBoundingBox = (\<lambda>b. make_real4 0 0 0 0),
     neighborPairs = (\<lambda>index. (0, 0)),
     numNeighborPairs = 65,
     numNeighborsForAtom = (\<lambda>i. 1),
     neighborStartIndex = (\<lambda>i. 0),
     neighbors = (\<lambda>k. 0)\<rparr>"

definition config65 :: config where
  "config65 = \<lparr>NUM_ATOMS = 65, TILE_SIZE = 32, NUM_BLOCKS = 3, CUTOFF_SQUARED = 1,
     USE_PERIODIC = False, USE_EXCLUSIONS = False\<rparr>"

section \<open>The reference Gay-Berne force: \<^verbatim>\<open>ReferenceGayBerneForce::calculateForce\<close>\<close>

datatype NonbondedMethod = NoCutoff | CutoffNonPeriodic | CutoffPeriodic

datatype error = OpenMMException string

type_synonym RealVec = "nat \<Rightarrow> real"

record ExceptionInfo =
  particle1 :: nat
  particle2 :: nat
  exceptionSigma :: real
  exceptionEpsilon :: real

text \<open>
  The fields of the class that \<^verbatim>\<open>calculateForce\<close> reads.  The per-particle
  \<^verbatim>\<open>ParticleInfo\<close> is kept as the two arrays \<open>particleSigma\<close> and
  \<open>particleEpsilon\<close>, over \<open>numParticles\<close> particles.
\<close>

record ReferenceGayBerneForce =
  nonbondedMethod :: NonbondedMethod
  cutoffDistance :: real
  numParticles :: nat
  particleSigma :: "nat \<Rightarrow> real"
  particleEpsilon :: "nat \<Rightarrow> real"
  gbExclusions :: "(nat \<times> nat) set"
  gbExceptions :: "ExceptionInfo list"

text \<open>
  The standard interactions: \<^verbatim>\<open>for (i = 1; i < numParticles; i++) for (j = 0; j < i; j++)\<close>,
  skipping the excluded pairs.  The energy of one pair, \<^verbatim>\<open>computeOneInteraction\<close>,
  works on the ellipsoid frames that \<^verbatim>\<open>computeEllipsoidFrames\<close> derives from the
  positions, with the matrix inverse and determinant of a header that is not part of
  the sources; it is the parameter \<open>computeOneInteraction\<close>, a function of the two
  particles, \<open>sigma\<close>, \<open>epsilon\<close> and the positions and box.  It never writes to
  \<^verbatim>\<open>forces\<close>.
\<close>

definition standardInteractions ::
  "(nat \<Rightarrow> nat \<Rightarrow> real \<Rightarrow> real \<Rightarrow> real) \<Rightarrow> ReferenceGayBerneForce \<Rightarrow> real \<Rightarrow> real" where
  "standardInteractions computeOneInteraction this energy0 =
     fold (\<lambda>i energy.
        fold (\<lambda>j energy.
           if (j, i) \<in> gbExclusions this then energy
           else (let sigma = 0.5 * (particleSigma this i + particleSigma this j);
                     epsilon = sqrt (particleEpsilon this i * particleEpsilon this j)
                 in energy + computeOneInteraction i j sigma epsilon))
          [0..<i] energy)
       [1..<numParticles this] energy0"

definition exceptionInteractions ::
  "(nat \<Rightarrow> nat \<Rightarrow> real \<Rightarrow> real \<Rightarrow> real) \<Rightarrow> ReferenceGayBerneForce \<Rightarrow> real \<Rightarrow> real" where
  "exceptionInteractions computeOneInteraction this energy0 =
     fold (\<lambda>e energy. energy + computeOneInteraction (particle1 e) (particle2 e)
                                   (exceptionSigma e) (exceptionEpsilon e))
       (gbExceptions this) energy0"

text \<open>
  \<^verbatim>\<open>calculateForce\<close> returns the energy and leaves the forces as they are, or
  throws: the result is \<open>Inl\<close> of the exception, or \<open>Inr\<close> of the energy and the
  forces after the call.  \<open>boxVectors k\<close> is the k-th box vector.
\<close>

definition calculateForce ::
  "((nat \<Rightarrow> RealVec) \<Rightarrow> (nat \<Rightarrow> RealVec) \<Rightarrow> nat \<Rightarrow> nat \<Rightarrow> real \<Rightarrow> real \<Rightarrow> real)
   \<Rightarrow> ReferenceGayBerneForce \<Rightarrow> (nat \<Rightarrow> RealVec) \<Rightarrow> (nat \<Rightarrow> RealVec) \<Rightarrow> (nat \<Rightarrow> RealVec)
   \<Rightarrow> error + (real \<times> (nat \<Rightarrow> RealVec))" where
  "calculateForce computeOneInteraction this positions forces boxVectors =
     (let minAllowedSize = 1.999999 * cutoffDistance this in
      if nonbondedMethod this = CutoffPeriodic \<and>
         (boxVectors 0 0 < minAllowedSize \<or> boxVectors 1 1 < minAllowedSize
          \<or> boxVectors 2 2 < minAllowedSize)
      then Inl (OpenMMException
             ''The periodic box size has decreased to less than twice the nonbonded cutoff.'')
      else
        (let energy = standardInteractions (computeOneInteraction positions boxVectors) this 0;
             energy = exceptionInteractions (computeOneInteraction positions boxVectors) this energy
         in Inr (energy, forces)))"

text \<open>Test data: no particles, cutoff 1, and a box given by its three edge lengths.\<close>

definition exampleForce :: ReferenceGayBerneForce where
  "exampleForce = \<lparr>nonbondedMethod = CutoffPeriodic, cutoffDistance = 1, numParticles = 0,
     particleSigma = (\<lambda>_. 1), particleEpsilon = (\<lambda>_. 1), gbExclusions = {},
     gbExceptions = []\<rparr>"

definition exampleBox :: "real \<Rightarrow> real \<Rightarrow> real \<Rightarrow> nat \<Rightarrow> RealVec" where
  "exampleBox a b c k = (\<lambda>d. if k = d then (if k = 0 then a else if k = 1 then b else c) else 0)"

definition zeroVectors :: "nat \<Rightarrow> RealVec" where
  "zeroVectors k = (\<lambda>d. 0)"

chapter \<open>Properties\<close>

section \<open>The downward scan of a sorted exclusion segment\<close>

lemma exclusionScan_sorted:
  assumes "segmentSorted exclusions first lasti" and "i < lasti" and "atom1 < atom2"
  shows "exclusionScan exclusions atom1 atom2 first i
         \<longleftrightarrow> (\<exists>k. first \<le> k \<and> k \<le> i \<and> exclusions (nat k) = atom2)"
  using assms
proof (induction exclusions atom1 atom2 first i rule: exclusionScan.induct)
  case (1 exclusions atom1 atom2 first i)
  show ?case
  proof (cases "i \<ge> first")
    case False
    then show ?thesis by (simp add: exclusionScan.simps [of _ _ _ first i])
  next
    case True
    note in_range = this
    show ?thesis
    proof (cases "exclusions (nat i) = atom2")
      case True
      with in_range show ?thesis
        by (auto simp: exclusionScan.simps [of _ _ _ first i])
    next
      case False
      note not_here = this
      show ?thesis
      proof (cases "exclusions (nat i) \<le> atom1")
        case True
        have "\<not> (\<exists>k. first \<le> k \<and> k \<le> i \<and> exclusions (nat k) = atom2)"
        proof
          assume "\<exists>k. first \<le> k \<and> k \<le> i \<and> exclusions (nat k) = atom2"
          then obtain k where k: "first \<le> k" "k \<le> i" "exclusions (nat k) = atom2" by blast
          from "1.prems"(1) k(1,2) "1.prems"(2) have "exclusions (nat k) \<le> exclusions (nat i)"
            unfolding segmentSorted_def by blast
          with k(3) True "1.prems"(3) show False by simp
        qed
        with in_range not_here True show ?thesis
          by (simp add: exclusionScan.simps [of _ _ _ first i])
      next
        case False
        have step: "exclusionScan exclusions atom1 atom2 first i
                    = exclusionScan exclusions atom1 atom2 first (i - 1)"
          using in_range not_here False by (simp add: exclusionScan.simps [of _ _ _ first i])
        have ih: "exclusionScan exclusions atom1 atom2 first (i - 1)
                  \<longleftrightarrow> (\<exists>k. first \<le> k \<and> k \<le> i - 1 \<and> exclusions (nat k) = atom2)"
          using "1.IH" [OF in_range refl not_here False "1.prems"(1) _ "1.prems"(3)] "1.prems"(2)
          by simp
        have "(\<exists>k. first \<le> k \<and> k \<le> i - 1 \<and> exclusions (nat k) = atom2)
              \<longleftrightarrow> (\<exists>k. first \<le> k \<and> k \<le> i \<and> exclusions (nat k) = atom2)"
        proof
          assume "\<exists>k. first \<le> k \<and> k \<le> i - 1 \<and> exclusions (nat k) = atom2"
          then show "\<exists>k. first \<le> k \<and> k \<le> i \<and> exclusions (nat k) = atom2" by force
        next
          assume "\<exists>k. first \<le> k \<and> k \<le> i \<and> exclusions (nat k) = atom2"
          then obtain k where k: "first \<le> k" "k \<le> i" "exclusions (nat k) = atom2" by blast
          with not_here have "k \<noteq> i" by auto
          with k show "\<exists>k. first \<le> k \<and> k \<le> i - 1 \<and> exclusions (nat k) = atom2" by force
        qed
        with step ih show ?thesis by simp
      qed
    qed
  qed
qed

section \<open>Grid-stride loops visit every index once\<close>

lemma strided_set:
  assumes "0 < stride"
  shows "set (strided start stride bound)
         = {i. start \<le> i \<and> i < bound \<and> stride dvd (i - start)}"
  using assms
proof (induction start stride bound rule: strided.induct)
  case (1 start stride bound)
  show ?case
  proof (cases "start < bound")
    case False
    then show ?thesis by (auto simp: strided.simps [of start])
  next
    case True
    have unfold: "set (strided start stride bound)
                  = insert start (set (strided (start + stride) stride bound))"
      using True "1.prems" by (simp add: strided.simps [of start])
    have ih: "set (strided (start + stride) stride bound)
              = {i. start + stride \<le> i \<and> i < bound \<and> stride dvd (i - (start + stride))}"
      using "1.IH" True "1.prems" by simp
    have "{i. start \<le> i \<and> i < bound \<and> stride dvd (i - start)}
          = insert start {i. start + stride \<le> i \<and> i < bound \<and> stride dvd (i - (start + stride))}"
    proof (intro set_eqI iffI)
      fix i
      assume "i \<in> {i. start \<le> i \<and> i < bound \<and> stride dvd (i - start)}"
      then have i: "start \<le> i" "i < bound" "stride dvd (i - start)" by auto
      show "i \<in> insert start {i. start + stride \<le> i \<and> i < bound
                                \<and> stride dvd (i - (start + stride))}"
      proof (cases "i = start")
        case True
        then show ?thesis by simp
      next
        case False
        with i(1) have pos: "0 < i - start" by simp
        with i(3) have "stride \<le> i - start" by (rule dvd_imp_le)
        with i(1) have le: "start + stride \<le> i" by linarith
        have "stride dvd (i - start - stride)"
          by (rule dvd_diff_nat [OF i(3) dvd_refl])
        then have "stride dvd (i - (start + stride))" by (simp add: diff_diff_left)
        with le i(2) show ?thesis by blast
      qed
    next
      fix i
      assume "i \<in> insert start {i. start + stride \<le> i \<and> i < bound
                                 \<and> stride dvd (i - (start + stride))}"
      then consider "i = start" | "start + stride \<le> i" "i < bound"
          "stride dvd (i - (start + stride))" by auto
      then show "i \<in> {i. start \<le> i \<and> i < bound \<and> stride dvd (i - start)}"
      proof cases
        case 1
        with True show ?thesis by simp
      next
        case 2
        have "i - start = (i - (start + stride)) + stride" using 2(1) by simp
        with 2(3) have "stride dvd (i - start)" by simp
        with 2 show ?thesis by simp
      qed
    qed
    with unfold ih show ?thesis by simp
  qed
qed

lemma strided_residue:
  assumes "start < stride"
  shows "set (strided start stride bound) = {i. i < bound \<and> i mod stride = start}"
proof -
  have "start \<le> i \<and> stride dvd (i - start) \<longleftrightarrow> i mod stride = start" for i
  proof (cases "start \<le> i")
    case True
    with mod_eq_dvd_iff_nat [OF True, of stride] assms show ?thesis by simp
  next
    case False
    then have "i < stride" using assms by simp
    with False show ?thesis by auto
  qed
  with strided_set [of stride start bound] assms show ?thesis by auto
qed

lemma strided_lower: "i \<in> set (strided start stride bound) \<Longrightarrow> start \<le> i \<and> i < bound"
proof (induction start stride bound rule: strided.induct)
  case (1 start stride bound)
  from "1.prems" have c: "start < bound \<and> 0 < stride"
    by (cases "start < bound \<and> 0 < stride") (simp_all add: strided.simps [of start])
  with "1.prems" have "i = start \<or> i \<in> set (strided (start + stride) stride bound)"
    by (simp add: strided.simps [of start])
  then show ?case
  proof
    assume "i = start"
    with c show ?thesis by simp
  next
    assume "i \<in> set (strided (start + stride) stride bound)"
    with "1.IH" [OF c] show ?thesis by simp
  qed
qed

lemma strided_distinct: "distinct (strided start stride bound)"
proof (induction start stride bound rule: strided.induct)
  case (1 start stride bound)
  show ?case
  proof (cases "start < bound \<and> 0 < stride")
    case False
    then show ?thesis by (simp add: strided.simps [of start])
  next
    case True
    have "start \<notin> set (strided (start + stride) stride bound)"
      using strided_lower [of start "start + stride" stride bound] True by auto
    with "1.IH" [OF True] True show ?thesis by (simp add: strided.simps [of start])
  qed
qed

lemma distinct_concat_map:
  assumes "distinct xs"
    and "\<And>x. x \<in> set xs \<Longrightarrow> distinct (f x)"
    and "\<And>x y. x \<in> set xs \<Longrightarrow> y \<in> set xs \<Longrightarrow> x \<noteq> y \<Longrightarrow> set (f x) \<inter> set (f y) = {}"
  shows "distinct (concat (map f xs))"
  using assms
proof (induction xs)
  case Nil
  then show ?case by simp
next
  case (Cons x xs)
  have "set (f x) \<inter> set (f y) = {}" if "y \<in> set xs" for y
    using Cons.prems(1) that by (intro Cons.prems(3)) auto
  moreover have "distinct (concat (map f xs))"
    using Cons.prems by (intro Cons.IH) auto
  ultimately show ?case using Cons.prems(2) by auto
qed

lemma gridStride_distinct: "distinct (gridStride numThreads bound)"
  unfolding gridStride_def
proof (rule distinct_concat_map)
  show "distinct [0..<numThreads]" by simp
  show "distinct (strided thread numThreads bound)" for thread by (rule strided_distinct)
  show "set (strided x numThreads bound) \<inter> set (strided y numThreads bound) = {}"
    if "x \<in> set [0..<numThreads]" "y \<in> set [0..<numThreads]" "x \<noteq> y" for x y
    using that by (auto simp: strided_residue)
qed

lemma gridStride_set:
  assumes "0 < numThreads"
  shows "set (gridStride numThreads bound) = {..<bound}"
proof -
  have "set (gridStride numThreads bound)
        = (\<Union>thread\<in>{..<numThreads}. {i. i < bound \<and> i mod numThreads = thread})"
    by (auto simp: gridStride_def strided_residue)
  also have "\<dots> = {..<bound}" using assms by auto
  finally show ?thesis .
qed

lemma gridStride_mset:
  assumes "0 < numThreads"
  shows "mset (gridStride numThreads bound) = mset [0..<bound]"
proof -
  have "set (gridStride numThreads bound) = set [0..<bound]"
    using gridStride_set [OF assms] by auto
  then show ?thesis
    by (intro set_eq_iff_mset_eq_distinct [THEN iffD1]) (simp_all add: gridStride_distinct)
qed

section \<open>The effect of \<open>findNeighbors\<close> on the memory\<close>

lemma appended_nil: "appended maxPairs [] mem mem"
  by (simp add: appended_def)

lemma appended_trans:
  assumes "appended maxPairs ps mem0 mem1" and "appended maxPairs qs mem1 mem2"
  shows "appended maxPairs (ps @ qs) mem0 mem2"
proof -
  let ?b = "numNeighborPairs mem0"
  from assms(1) have c1: "numNeighborPairs mem1 = ?b + length ps"
    and slots1: "\<And>s. neighborPairs mem1 s = neighborPairs mem0 s
            \<or> (?b \<le> s \<and> s < ?b + length ps \<and> neighborPairs mem1 s = ps ! (s - ?b))"
    and fit1: "?b + length ps \<le> maxPairs \<Longrightarrow> k < length ps
               \<Longrightarrow> neighborPairs mem1 (?b + k) = ps ! k" for k
    by (simp_all add: appended_def)
  from assms(2) c1 have c2: "numNeighborPairs mem2 = ?b + length ps + length qs"
    and slots2: "\<And>s. neighborPairs mem2 s = neighborPairs mem1 s
            \<or> (?b + length ps \<le> s \<and> s < ?b + length ps + length qs
                \<and> neighborPairs mem2 s = qs ! (s - (?b + length ps)))"
    and fit2: "?b + length ps + length qs \<le> maxPairs \<Longrightarrow> k < length qs
               \<Longrightarrow> neighborPairs mem2 (?b + length ps + k) = qs ! k" for k
    by (simp_all add: appended_def)
  have frame: "blockCenter mem2 = blockCenter mem0" "blockBoundingBox mem2 = blockBoundingBox mem0"
    "neighborStartIndex mem2 = neighborStartIndex mem0" "neighbors mem2 = neighbors mem0"
    using assms by (simp_all add: appended_def)
  have slots: "neighborPairs mem2 s = neighborPairs mem0 s
            \<or> (?b \<le> s \<and> s < ?b + length (ps @ qs)
                \<and> neighborPairs mem2 s = (ps @ qs) ! (s - ?b))" for s
  proof -
    from slots2 [of s] show ?thesis
    proof
      assume same: "neighborPairs mem2 s = neighborPairs mem1 s"
      from slots1 [of s] show ?thesis
      proof
        assume "neighborPairs mem1 s = neighborPairs mem0 s"
        with same show ?thesis by simp
      next
        assume w1: "?b \<le> s \<and> s < ?b + length ps \<and> neighborPairs mem1 s = ps ! (s - ?b)"
        then have "s - ?b < length ps" by linarith
        with same w1 show ?thesis by (simp add: nth_append)
      qed
    next
      assume w: "?b + length ps \<le> s \<and> s < ?b + length ps + length qs
                \<and> neighborPairs mem2 s = qs ! (s - (?b + length ps))"
      then have "\<not> s - ?b < length ps" and "s - ?b - length ps = s - (?b + length ps)"
        by linarith+
      then have "(ps @ qs) ! (s - ?b) = qs ! (s - (?b + length ps))"
        by (simp add: nth_append)
      moreover from w have "?b \<le> s" and "s < ?b + length (ps @ qs)" by simp_all
      ultimately show ?thesis using w by simp
    qed
  qed
  have fit: "neighborPairs mem2 (?b + k) = (ps @ qs) ! k"
    if cap: "?b + length (ps @ qs) \<le> maxPairs" and k: "k < length (ps @ qs)" for k
  proof (cases "k < length ps")
    case True
    from cap have "?b + length ps \<le> maxPairs" by simp
    from fit1 [OF this True] have first: "neighborPairs mem1 (?b + k) = ps ! k" .
    from slots2 [of "?b + k"] True have "neighborPairs mem2 (?b + k) = neighborPairs mem1 (?b + k)"
      by auto
    with first True show ?thesis by (simp add: nth_append)
  next
    case False
    then obtain k' where k': "k = length ps + k'" "k' < length qs"
      using k by (metis add_diff_inverse_nat length_append nat_add_left_cancel_less)
    from cap have "?b + length ps + length qs \<le> maxPairs" by simp
    from fit2 [OF this k'(2)] k' show ?thesis by (simp add: nth_append add.assoc)
  qed
  show ?thesis
    unfolding appended_def using c2 frame slots fit by (simp add: add.assoc)
qed

lemma store_slots:
  "fold (\<lambda>i pairs. pairs(baseIndex + i := (atomA, included ! i))) [0..<n] pairs s
   = (if baseIndex \<le> s \<and> s < baseIndex + n then (atomA, included ! (s - baseIndex)) else pairs s)"
proof (induction n)
  case 0
  show ?case by auto
next
  case (Suc n)
  show ?case
  proof (cases "s = baseIndex + n")
    case True
    then show ?thesis by simp
  next
    case False
    then have "(baseIndex \<le> s \<and> s < baseIndex + Suc n) \<longleftrightarrow> (baseIndex \<le> s \<and> s < baseIndex + n)"
      by linarith
    with False show ?thesis using Suc.IH by simp
  qed
qed

lemma storeIncluded_appended:
  "appended maxNeighborPairs (map (Pair atomA) included) mem
     (storeIncluded maxNeighborPairs atomA included mem)"
proof (cases "numNeighborPairs mem + length included \<le> maxNeighborPairs")
  case True
  then show ?thesis
    by (auto simp: appended_def storeIncluded_def Let_def store_slots)
next
  case False
  then show ?thesis
    by (simp add: appended_def storeIncluded_def Let_def)
qed

lemma storeIncluded_counter:
  "numNeighborsForAtom (storeIncluded maxNeighborPairs atomA included mem) = numNeighborsForAtom mem"
  by (simp add: storeIncluded_def Let_def)

lemma tileNear_cong:
  assumes "blockCenter mem' = blockCenter mem" and "blockBoundingBox mem' = blockBoundingBox mem"
  shows "tileNear cfg box ibox mem' block1 block2 = tileNear cfg box ibox mem block1 block2"
  unfolding tileNear_def assms by (rule refl)

lemma acceptedFor_cong:
  assumes "blockCenter mem' = blockCenter mem" and "blockBoundingBox mem' = blockBoundingBox mem"
  shows "acceptedFor cfg box ibox posq exclusions exclusionStartIndex mem' atomA
         = acceptedFor cfg box ibox posq exclusions exclusionStartIndex mem atomA"
  by (simp add: acceptedFor_def tileNear_cong [OF assms])

text \<open>The loop over \<open>block2\<close>, for any list of tiles.\<close>

lemma findNeighbors_blocks:
  fixes cfg box ibox posq maxPairs exclusions exclusionStartIndex atomA
  defines "pass \<equiv> findNeighbors_block cfg box ibox posq maxPairs exclusions exclusionStartIndex atomA"
    and "chosen \<equiv> \<lambda>mem block2.
        if tileNear cfg box ibox mem (atomA div TILE_SIZE cfg) block2
        then tileIncluded cfg box ibox posq exclusions exclusionStartIndex atomA block2 else []"
  shows "appended maxPairs (map (Pair atomA) (concat (map (chosen mem) blocks))) mem
           (fst (fold pass blocks (mem, tally)))
         \<and> numNeighborsForAtom (fst (fold pass blocks (mem, tally))) = numNeighborsForAtom mem
         \<and> snd (fold pass blocks (mem, tally)) = tally + length (concat (map (chosen mem) blocks))"
proof (induction blocks arbitrary: mem tally)
  case Nil
  then show ?case by (simp add: appended_nil)
next
  case (Cons block2 blocks)
  obtain mem1 tally1 where step: "pass block2 (mem, tally) = (mem1, tally1)"
    by (cases "pass block2 (mem, tally)")
  have first: "appended maxPairs (map (Pair atomA) (chosen mem block2)) mem mem1
               \<and> numNeighborsForAtom mem1 = numNeighborsForAtom mem
               \<and> tally1 = tally + length (chosen mem block2)"
    using step
    by (auto simp: pass_def chosen_def findNeighbors_block_def Let_def appended_nil
        storeIncluded_appended storeIncluded_counter split: if_splits)
  then have same: "blockCenter mem1 = blockCenter mem" "blockBoundingBox mem1 = blockBoundingBox mem"
    by (simp_all add: appended_def)
  have chosen_same: "chosen mem1 = chosen mem"
    by (simp add: chosen_def fun_eq_iff tileNear_cong [OF same])
  from Cons.IH [of mem1 tally1]
  have rest: "appended maxPairs (map (Pair atomA) (concat (map (chosen mem) blocks))) mem1
           (fst (fold pass blocks (mem1, tally1)))"
    "numNeighborsForAtom (fst (fold pass blocks (mem1, tally1))) = numNeighborsForAtom mem1"
    "snd (fold pass blocks (mem1, tally1)) = tally1 + length (concat (map (chosen mem) blocks))"
    by (simp_all add: chosen_same)
  have "appended maxPairs
          (map (Pair atomA) (chosen mem block2) @ map (Pair atomA) (concat (map (chosen mem) blocks)))
          mem (fst (fold pass blocks (mem1, tally1)))"
    using first rest(1) by (intro appended_trans) simp_all
  with first rest(2,3) show ?case by (simp add: step)
qed

text \<open>One pass of the loop over \<open>atom1\<close>.\<close>

lemma findNeighbors_atom_effect:
  fixes cfg box ibox posq maxPairs exclusions exclusionStartIndex
  defines "pass \<equiv> findNeighbors_atom cfg box ibox posq maxPairs exclusions exclusionStartIndex"
    and "accepted \<equiv> acceptedFor cfg box ibox posq exclusions exclusionStartIndex"
  shows "appended maxPairs (map (Pair atomA) (accepted mem atomA)) mem (pass atomA mem)
         \<and> numNeighborsForAtom (pass atomA mem)
             = (numNeighborsForAtom mem)(atomA := length (accepted mem atomA))"
proof -
  let ?blocks = "[atomA div TILE_SIZE cfg..<NUM_BLOCKS cfg]"
  let ?fold = "fold (findNeighbors_block cfg box ibox posq maxPairs exclusions exclusionStartIndex atomA)
                 ?blocks (mem, 0)"
  from findNeighbors_blocks [where maxPairs = maxPairs and atomA = atomA and cfg = cfg
         and box = box and ibox = ibox and posq = posq and exclusions = exclusions
         and exclusionStartIndex = exclusionStartIndex and mem = mem and blocks = ?blocks
         and tally = 0]
  have b: "appended maxPairs (map (Pair atomA) (accepted mem atomA)) mem (fst ?fold)"
    "numNeighborsForAtom (fst ?fold) = numNeighborsForAtom mem"
    "snd ?fold = length (accepted mem atomA)"
    by (simp_all add: accepted_def acceptedFor_def)
  have run: "pass atomA mem
             = (fst ?fold)\<lparr>numNeighborsForAtom := (numNeighborsForAtom (fst ?fold))(atomA := snd ?fold)\<rparr>"
    by (simp add: pass_def findNeighbors_atom_def Let_def case_prod_unfold)
  have "appended maxPairs (map (Pair atomA) (accepted mem atomA)) mem (pass atomA mem)"
    using b(1) unfolding run appended_def by simp
  moreover have "numNeighborsForAtom (pass atomA mem)
             = (numNeighborsForAtom mem)(atomA := length (accepted mem atomA))"
    unfolding run using b(2,3) by simp
  ultimately show ?thesis by blast
qed

text \<open>The kernel, for any order of the passes.\<close>

lemma findNeighbors_effect:
  fixes cfg box ibox posq maxPairs exclusions exclusionStartIndex
  defines "accepted \<equiv> acceptedFor cfg box ibox posq exclusions exclusionStartIndex"
  shows "appended maxPairs (concat (map (\<lambda>atomA. map (Pair atomA) (accepted mem atomA)) sched))
           mem (findNeighbors sched cfg box ibox posq maxPairs exclusions exclusionStartIndex mem)
         \<and> (\<forall>atomA. numNeighborsForAtom (findNeighbors sched cfg box ibox posq maxPairs exclusions exclusionStartIndex mem) atomA
               = (if atomA \<in> set sched then length (accepted mem atomA)
                  else numNeighborsForAtom mem atomA))"
proof (induction sched arbitrary: mem)
  case Nil
  then show ?case by (simp add: kernel_def findNeighbors_def appended_nil)
next
  case (Cons a sched)
  define mem1 where
    "mem1 = findNeighbors_atom cfg box ibox posq maxPairs exclusions exclusionStartIndex a mem"
  have run: "findNeighbors (a # sched) cfg box ibox posq maxPairs exclusions exclusionStartIndex mem = findNeighbors sched cfg box ibox posq maxPairs exclusions exclusionStartIndex mem1"
    by (simp add: kernel_def findNeighbors_def mem1_def)
  from findNeighbors_atom_effect [where maxPairs = maxPairs and atomA = a and cfg = cfg
         and box = box and ibox = ibox and posq = posq and exclusions = exclusions
         and exclusionStartIndex = exclusionStartIndex and mem = mem]
  have first: "appended maxPairs (map (Pair a) (accepted mem a)) mem mem1"
    and counter: "numNeighborsForAtom mem1 = (numNeighborsForAtom mem)(a := length (accepted mem a))"
    by (simp_all add: mem1_def accepted_def)
  from first have same: "blockCenter mem1 = blockCenter mem" "blockBoundingBox mem1 = blockBoundingBox mem"
    by (simp_all add: appended_def)
  have accepted_same: "accepted mem1 = accepted mem"
    by (simp add: accepted_def fun_eq_iff acceptedFor_cong [OF same])
  from Cons.IH [of mem1]
  have rest: "appended maxPairs (concat (map (\<lambda>atomA. map (Pair atomA) (accepted mem atomA)) sched))
           mem1 (findNeighbors sched cfg box ibox posq maxPairs exclusions exclusionStartIndex mem1)"
    and counters: "\<And>atomA. numNeighborsForAtom (findNeighbors sched cfg box ibox posq maxPairs exclusions exclusionStartIndex mem1) atomA
               = (if atomA \<in> set sched then length (accepted mem atomA)
                  else numNeighborsForAtom mem1 atomA)"
    by (simp_all add: accepted_same)
  have "appended maxPairs
          (map (Pair a) (accepted mem a)
           @ concat (map (\<lambda>atomA. map (Pair atomA) (accepted mem atomA)) sched))
          mem (findNeighbors sched cfg box ibox posq maxPairs exclusions exclusionStartIndex mem1)"
    using first rest by (rule appended_trans)
  moreover have "numNeighborsForAtom (findNeighbors sched cfg box ibox posq maxPairs exclusions exclusionStartIndex mem1) atomA
               = (if atomA \<in> set (a # sched) then length (accepted mem atomA)
                  else numNeighborsForAtom mem atomA)" for atomA
    unfolding counters counter by simp
  ultimately show ?case unfolding run by simp
qed


lemma includeAtom_range:
  assumes "includeAtom cfg box ibox posq exclusions exclusionStartIndex atomA atomB"
  shows "atomA < atomB \<and> atomB < NUM_ATOMS cfg"
  using assms by (auto simp: includeAtom_def Let_def split: if_splits)

lemma acceptedFor_member:
  assumes "atomB \<in> set (acceptedFor cfg box ibox posq exclusions exclusionStartIndex mem atomA)"
  shows "includeAtom cfg box ibox posq exclusions exclusionStartIndex atomA atomB"
  using assms by (auto simp: acceptedFor_def tileIncluded_def split: if_splits)

section \<open>The test data evaluated\<close>

lemma example_tileIncluded:
  "tileIncluded exampleConfig exampleNoBox exampleNoBox examplePosq (\<lambda>k. 0) (\<lambda>k. 0) 0 0 = [1]"
  "tileIncluded exampleConfig exampleNoBox exampleNoBox examplePosq (\<lambda>k. 0) (\<lambda>k. 0) 0 1 = []"
  "tileIncluded exampleConfig exampleNoBox exampleNoBox examplePosq (\<lambda>k. 0) (\<lambda>k. 0) 1 0 = []"
  "tileIncluded exampleConfig exampleNoBox exampleNoBox examplePosq (\<lambda>k. 0) (\<lambda>k. 0) 1 1 = [2]"
  "tileIncluded exampleConfig exampleNoBox exampleNoBox examplePosq (\<lambda>k. 0) (\<lambda>k. 0) 2 1 = []"
  "tileIncluded exampleConfig exampleNoBox exampleNoBox examplePosq (\<lambda>k. 0) (\<lambda>k. 0) 0 (Suc 0) = []"
  "tileIncluded exampleConfig exampleNoBox exampleNoBox examplePosq (\<lambda>k. 0) (\<lambda>k. 0) (Suc 0) 0 = []"
  "tileIncluded exampleConfig exampleNoBox exampleNoBox examplePosq (\<lambda>k. 0) (\<lambda>k. 0) (Suc 0) (Suc 0) = [2]"
  "tileIncluded exampleConfig exampleNoBox exampleNoBox examplePosq (\<lambda>k. 0) (\<lambda>k. 0) 2 (Suc 0) = []"
  by (simp_all add: tileIncluded_def includeAtom_def delta_def exampleConfig_def examplePosq_def
      exampleNoBox_def make_real4_def Let_def upt_rec)

lemma example_tileNear:
  "tileNear exampleConfig exampleNoBox exampleNoBox exampleTiles 0 0"
  "tileNear exampleConfig exampleNoBox exampleNoBox exampleTiles 0 1"
  "tileNear exampleConfig exampleNoBox exampleNoBox exampleTiles 1 1"
  "tileNear exampleConfig exampleNoBox exampleNoBox exampleTiles 0 (Suc 0)"
  "tileNear exampleConfig exampleNoBox exampleNoBox exampleTiles (Suc 0) (Suc 0)"
  by (simp_all add: tileNear_def exampleConfig_def exampleTiles_def exampleNoBox_def
      make_real4_def sub4_def Let_def power2_eq_square)

lemma example_accepted:
  "acceptedFor exampleConfig exampleNoBox exampleNoBox examplePosq (\<lambda>k. 0) (\<lambda>k. 0) exampleTiles 0 = [1]"
  "acceptedFor exampleConfig exampleNoBox exampleNoBox examplePosq (\<lambda>k. 0) (\<lambda>k. 0) exampleTiles 1 = [2]"
  "acceptedFor exampleConfig exampleNoBox exampleNoBox examplePosq (\<lambda>k. 0) (\<lambda>k. 0) exampleTiles 2 = []"
proof -
  have cfg: "TILE_SIZE exampleConfig = 2" "NUM_BLOCKS exampleConfig = 2"
    by (simp_all add: exampleConfig_def)
  show "acceptedFor exampleConfig exampleNoBox exampleNoBox examplePosq (\<lambda>k. 0) (\<lambda>k. 0) exampleTiles 0 = [1]"
    by (simp add: acceptedFor_def cfg upt_rec example_tileNear example_tileIncluded)
  have one: "acceptedFor exampleConfig exampleNoBox exampleNoBox examplePosq (\<lambda>k. 0) (\<lambda>k. 0)
               exampleTiles (Suc 0) = [2]"
    by (simp add: acceptedFor_def cfg upt_rec example_tileNear example_tileIncluded)
  then show "acceptedFor exampleConfig exampleNoBox exampleNoBox examplePosq (\<lambda>k. 0) (\<lambda>k. 0) exampleTiles 1 = [2]"
    by simp
  show "acceptedFor exampleConfig exampleNoBox exampleNoBox examplePosq (\<lambda>k. 0) (\<lambda>k. 0) exampleTiles 2 = []"
    by (simp add: acceptedFor_def cfg upt_rec example_tileNear example_tileIncluded)
qed

lemma example_sched: "mset [1, 0, 2] = mset (gridStride 2 (NUM_ATOMS exampleConfig))"
  by (simp add: exampleConfig_def gridStride_def strided.simps eval_nat_numeral upt_rec)

section \<open>The bounding boxes of the tiles never hide a near pair\<close>

subsection \<open>One axis\<close>

lemma nearest_image_residue:
  fixes L v :: real
  assumes "0 < L"
  shows "\<bar>v - of_int \<lfloor>v * (1 / L) + 0.5\<rfloor> * L\<bar> \<le> L / 2"
proof -
  define q where "q = v / L"
  define n :: real where "n = of_int \<lfloor>q + 1 / 2\<rfloor>"
  have v: "v = q * L" using assms by (simp add: q_def)
  have fl: "of_int \<lfloor>v * (1 / L) + 0.5\<rfloor> = n" by (simp add: n_def q_def)
  have lo: "n \<le> q + 1 / 2" unfolding n_def by (rule of_int_floor_le)
  have hi: "q + 1 / 2 < n + 1" unfolding n_def by linarith
  have "\<bar>q - n\<bar> \<le> 1 / 2" using lo hi by linarith
  then have "\<bar>q - n\<bar> * L \<le> 1 / 2 * L" using assms by (intro mult_right_mono) simp_all
  moreover have "\<bar>v - n * L\<bar> = \<bar>q - n\<bar> * L"
  proof -
    have "v - n * L = (q - n) * L" by (simp add: v algebra_simps)
    then show ?thesis using assms by (simp add: abs_mult)
  qed
  ultimately show ?thesis unfolding fl by simp
qed

lemma nearest_image_least:
  fixes L v :: real
  assumes "0 < L"
  shows "\<bar>v - of_int \<lfloor>v * (1 / L) + 0.5\<rfloor> * L\<bar> \<le> \<bar>v + of_int k * L\<bar>"
proof -
  let ?n = "\<lfloor>v * (1 / L) + 0.5\<rfloor>"
  define r where "r = v - of_int ?n * L"
  define m where "m = ?n + k"
  have r: "\<bar>r\<bar> \<le> L / 2" unfolding r_def by (rule nearest_image_residue [OF assms])
  have split: "v + of_int k * L = r + of_int m * L"
    by (simp add: r_def m_def algebra_simps)
  show ?thesis
  proof (cases "m = 0")
    case True
    with split show ?thesis by (simp add: r_def)
  next
    case False
    then have "1 \<le> \<bar>m\<bar>" by simp
    then have "(1::real) \<le> \<bar>of_int m\<bar>" by (metis of_int_1_le_iff of_int_abs)
    then have "L \<le> \<bar>of_int m\<bar> * L" using assms by simp
    then have "L \<le> \<bar>of_int m * L\<bar>" using assms by (simp add: abs_mult)
    moreover have "\<bar>of_int m * L\<bar> - \<bar>r\<bar> \<le> \<bar>r + of_int m * L\<bar>"
      by linarith
    ultimately have "L / 2 \<le> \<bar>r + of_int m * L\<bar>" using r by linarith
    with r split show ?thesis unfolding r_def by linarith
  qed
qed

text \<open>
  The displacement that \<open>delta\<close> computes along a periodic axis is the displacement
  between nearest images.
\<close>

lemma axisDelta_nearestImage:
  assumes "0 < L" and "iL = 1 / L"
  shows "nearestImage L (a - b) (axisDelta True L iL a b)"
  unfolding nearestImage_def axisDelta_def
proof (intro conjI allI)
  show "\<exists>k::int. (if True then a - b - of_int \<lfloor>(a - b) * iL + 0.5\<rfloor> * L else a - b)
                  = a - b + of_int k * L"
    by (rule exI [of _ "- \<lfloor>(a - b) * iL + 0.5\<rfloor>"]) simp
  fix k :: int
  show "\<bar>if True then a - b - of_int \<lfloor>(a - b) * iL + 0.5\<rfloor> * L else a - b\<bar>
        \<le> \<bar>a - b + of_int k * L\<bar>"
    using nearest_image_least [OF assms(1), of "a - b" k] by (simp add: assms(2))
qed





subsection \<open>The kernels, axis by axis\<close>













subsection \<open>The tables that \<open>findBlockBounds\<close> writes\<close>






subsection \<open>The test of the tiles accepts the tiles of every near pair\<close>


section \<open>The start indices when the passes do not overlap\<close>

text \<open>
  On 65 particles with one neighbor each and a block of 64 threads, the schedule in which
  every thread has written back before any thread loads the next window yields the
  running totals: \<open>neighborStartIndex 64 = 64\<close> and \<open>neighborStartIndex 65 = 65\<close>.
\<close>

lemma computeNeighborStartIndices_in_order_example:
  "legalSchedule 64 (inOrder 64)
   \<and> neighborStartIndex (computeNeighborStartIndices 64 config65 (inOrder 64) exampleCounts) 64 = 64
   \<and> neighborStartIndex (computeNeighborStartIndices 64 config65 (inOrder 64) exampleCounts) 65 = 65"
  by code_simp

section \<open>Neighbor discovery finds the pairs of the reference\<close>




lemma bruteForcePairs_finite:
  "finite (bruteForcePairs cfg box ibox posq exclusions exclusionStartIndex)"
proof (rule finite_subset)
  show "bruteForcePairs cfg box ibox posq exclusions exclusionStartIndex
        \<subseteq> {..<NUM_ATOMS cfg} \<times> {..<NUM_ATOMS cfg}"
    by (auto simp: bruteForcePairs_def)
qed simp


text \<open>The reference does not depend on the tiling.\<close>

lemma bruteForcePairs_tiling:
  "bruteForcePairs (cfg\<lparr>TILE_SIZE := tileSize, NUM_BLOCKS := numBlocks\<rparr>) box ibox posq
     exclusions exclusionStartIndex
   = bruteForcePairs cfg box ibox posq exclusions exclusionStartIndex"
  by (simp add: bruteForcePairs_def)

text \<open>The squared distance of the reference is that of the nearest periodic images.\<close>

lemma delta_nearest_images:
  assumes "boxOK cfg box ibox" and "USE_PERIODIC cfg"
  shows "nearestImage (vx box) (vx p - vx q) (axisDelta True (vx box) (vx ibox) (vx p) (vx q))"
    and "nearestImage (vy box) (vy p - vy q) (axisDelta True (vy box) (vy ibox) (vy p) (vy q))"
    and "nearestImage (vz box) (vz p - vz q) (axisDelta True (vz box) (vz ibox) (vz p) (vz q))"
  using assms by (simp_all add: boxOK_def axisDelta_nearestImage)







section \<open>The exclusion lookup finds the stored exclusions\<close>

text \<open>
  C6: when the segment of \<open>atom1\<close> is sorted ascending and \<open>atom2 > atom1\<close>,
  \<open>isInteractionExcluded atom1 atom2\<close> is true exactly when \<open>atom2\<close> occurs in the
  segment of \<open>atom1\<close>; the early exit on a stored index at or below \<open>atom1\<close> never
  skips a match.
\<close>

theorem isInteractionExcluded_iff_member:
  assumes "segmentSorted exclusions (exclusionStartIndex (nat atom1)) (exclusionStartIndex (nat (atom1 + 1)))"
    and "atom1 < atom2"
  shows "isInteractionExcluded atom1 atom2 exclusions exclusionStartIndex
         \<longleftrightarrow> atom2 \<in> segmentEntries exclusions (exclusionStartIndex (nat atom1))
                                   (exclusionStartIndex (nat (atom1 + 1)))"
proof -
  let ?first = "exclusionStartIndex (nat atom1)"
  let ?last = "exclusionStartIndex (nat (atom1 + 1))"
  have "exclusionScan exclusions atom1 atom2 ?first (?last - 1)
        \<longleftrightarrow> (\<exists>k. ?first \<le> k \<and> k \<le> ?last - 1 \<and> exclusions (nat k) = atom2)"
    by (rule exclusionScan_sorted [OF assms(1) _ assms(2)]) simp
  also have "\<dots> \<longleftrightarrow> atom2 \<in> segmentEntries exclusions ?first ?last"
    unfolding segmentEntries_def by auto
  finally show ?thesis by (simp add: isInteractionExcluded_def Let_def)
qed

theorem isInteractionExcluded_iff_member_witness:
  "segmentSorted exampleExclusions (exampleExclusionStartIndex (nat 0))
       (exampleExclusionStartIndex (nat (0 + 1)))
   \<and> (0::int) < 3
   \<and> isInteractionExcluded 0 3 exampleExclusions exampleExclusionStartIndex
   \<and> 3 \<in> segmentEntries exampleExclusions (exampleExclusionStartIndex (nat 0))
              (exampleExclusionStartIndex (nat (0 + 1)))"
proof -
  have sorted: "segmentSorted exampleExclusions (exampleExclusionStartIndex (nat 0))
                  (exampleExclusionStartIndex (nat (0 + 1)))"
    unfolding segmentSorted_def exampleExclusions_def exampleExclusionStartIndex_def
    by auto
  have lt: "(0::int) < 3" by simp
  have member: "3 \<in> segmentEntries exampleExclusions (exampleExclusionStartIndex (nat 0))
                       (exampleExclusionStartIndex (nat (0 + 1)))"
    unfolding segmentEntries_def exampleExclusions_def exampleExclusionStartIndex_def
    by (auto intro: exI [of _ 1])
  from isInteractionExcluded_iff_member [OF sorted lt] sorted member show ?thesis
    by simp
qed

section \<open>The groups of \<open>computeInteraction\<close> under the specified enumeration\<close>

lemma unrank_shape:
  "index < n choose k \<Longrightarrow>
   length (unrank n k index) = k \<and> sorted_wrt (<) (unrank n k index)
   \<and> (\<forall>a\<in>set (unrank n k index). a < n)"
proof (induction n k index rule: unrank.induct)
  case (1 n index)
  then show ?case by simp
next
  case (2 k index)
  then show ?case by simp
next
  case (3 n k index)
  show ?case
  proof (cases "index < n choose k")
    case True
    with "3.IH"(1) have ih: "length (unrank n k index) = k" "sorted_wrt (<) (unrank n k index)"
      "\<forall>a\<in>set (unrank n k index). a < n" by simp_all
    from ih(2) have "sorted_wrt (<) (map Suc (unrank n k index))"
      by (simp add: sorted_wrt_map)
    with True ih show ?thesis by auto
  next
    case False
    with "3.prems" have "index - (n choose k) < n choose Suc k" by simp
    with "3.IH"(2) False have ih: "length (unrank n (Suc k) (index - (n choose k))) = Suc k"
      "sorted_wrt (<) (unrank n (Suc k) (index - (n choose k)))"
      "\<forall>a\<in>set (unrank n (Suc k) (index - (n choose k))). a < n" by simp_all
    from ih(2) have "sorted_wrt (<) (map Suc (unrank n (Suc k) (index - (n choose k))))"
      by (simp add: sorted_wrt_map)
    with False ih show ?thesis by auto
  qed
qed

lemma unrank_inj:
  "i < n choose k \<Longrightarrow> j < n choose k \<Longrightarrow> unrank n k i = unrank n k j \<Longrightarrow> i = j"
proof (induction n k i arbitrary: j rule: unrank.induct)
  case (1 n index)
  then show ?case by simp
next
  case (2 k index)
  then show ?case by simp
next
  case (3 n k index)
  have no_zero: "0 # xs \<noteq> map Suc ys" for xs ys :: "nat list"
    by (cases ys) auto
  show ?case
  proof (cases "index < n choose k")
    case True
    note i_small = this
    show ?thesis
    proof (cases "j < n choose k")
      case True
      with i_small "3.prems"(3) have "unrank n k index = unrank n k j"
        by (simp add: inj_map_eq_map)
      with "3.IH"(1) [OF i_small i_small True] show ?thesis .
    next
      case False
      with i_small "3.prems"(3) no_zero show ?thesis by simp
    qed
  next
    case False
    note i_large = this
    show ?thesis
    proof (cases "j < n choose k")
      case True
      with i_large "3.prems"(3) no_zero [of "map Suc (unrank n k j)"] show ?thesis
        by (metis unrank.simps(3))
    next
      case False
      with i_large "3.prems"(3)
      have eq: "unrank n (Suc k) (index - (n choose k)) = unrank n (Suc k) (j - (n choose k))"
        by (simp add: inj_map_eq_map)
      from i_large "3.prems"(1) have a: "index - (n choose k) < n choose Suc k" by simp
      from False "3.prems"(2) have b: "j - (n choose k) < n choose Suc k" by simp
      from "3.IH"(2) [OF i_large a b eq] i_large False show ?thesis by simp
    qed
  qed
qed

lemma concat_map_if_singleton:
  "concat (map (\<lambda>x. if P x then [g x] else []) xs) = map g (filter P xs)"
  by (induction xs) simp_all

lemma workers_set: "set (workers gridDim blockDim) = {(b, t). b < gridDim \<and> t < blockDim}"
  by (auto simp: workers_def)

lemma workers_distinct: "distinct (workers gridDim blockDim)"
  unfolding workers_def
  by (rule distinct_concat_map) (auto simp: distinct_map inj_on_def)

lemma workerInteractions_indices:
  "workerInteractions code N gridDim blockDim b t
   = map (\<lambda>(p1, index). (p1, findAtomsForCombinationIndex code p1 (N - p1 - 1) index))
       (workerIndices code N gridDim blockDim b t)"
  by (simp add: workerInteractions_def workerIndices_def Let_def map_concat
      concat_map_if_singleton comp_def)

lemma allInteractions_indices:
  "allInteractions code N gridDim blockDim
   = map (\<lambda>(p1, index). (p1, findAtomsForCombinationIndex code p1 (N - p1 - 1) index))
       (allIndices code N gridDim blockDim)"
  by (simp add: allInteractions_def allIndices_def map_concat workerInteractions_indices
      comp_def case_prod_unfold)

lemma workerIndices_member:
  assumes "(p1, index) \<in> set (workerIndices code N gridDim blockDim b t)"
    and "b < gridDim" and "t < blockDim"
  shows "p1 < N \<and> p1 mod gridDim = b
         \<and> index < numCandidateCombinations code (N - p1 - 1) \<and> index mod blockDim = t"
  using assms by (auto simp: workerIndices_def strided_residue)

lemma workerIndices_distinct: "distinct (workerIndices code N gridDim blockDim b t)"
  unfolding workerIndices_def
  by (rule distinct_concat_map)
     (auto simp: strided_distinct distinct_map inj_on_def)

lemma allIndices_distinct: "distinct (allIndices code N gridDim blockDim)"
  unfolding allIndices_def
proof (rule distinct_concat_map)
  show "distinct (workers gridDim blockDim)" by (rule workers_distinct)
next
  fix w
  show "distinct (case w of (blockIdx, threadIdx) \<Rightarrow>
                    workerIndices code N gridDim blockDim blockIdx threadIdx)"
    by (cases w) (simp add: workerIndices_distinct)
next
  fix w w'
  assume w: "w \<in> set (workers gridDim blockDim)" and w': "w' \<in> set (workers gridDim blockDim)"
    and ne: "w \<noteq> w'"
  obtain b t where [simp]: "w = (b, t)" by (cases w)
  obtain b' t' where [simp]: "w' = (b', t')" by (cases w')
  from w w' have range: "b < gridDim" "t < blockDim" "b' < gridDim" "t' < blockDim"
    by (simp_all add: workers_set)
  show "set (case w of (blockIdx, threadIdx) \<Rightarrow>
                 workerIndices code N gridDim blockDim blockIdx threadIdx)
        \<inter> set (case w' of (blockIdx, threadIdx) \<Rightarrow>
                 workerIndices code N gridDim blockDim blockIdx threadIdx) = {}"
  proof (rule ccontr)
    assume "\<not> ?thesis"
    then obtain p1 index where "(p1, index) \<in> set (workerIndices code N gridDim blockDim b t)"
      and "(p1, index) \<in> set (workerIndices code N gridDim blockDim b' t')"
      by auto
    with range have "b = b' \<and> t = t'"
      using workerIndices_member by blast
    with ne show False by simp
  qed
qed

lemma allIndices_member:
  assumes "(p1, index) \<in> set (allIndices code N gridDim blockDim)"
  shows "p1 < N \<and> index < numCandidateCombinations code (N - p1 - 1)"
proof -
  from assms obtain b t where "(b, t) \<in> set (workers gridDim blockDim)"
    and "(p1, index) \<in> set (workerIndices code N gridDim blockDim b t)"
    by (auto simp: allIndices_def)
  then show ?thesis using workerIndices_member [of p1 index code N gridDim blockDim b t]
    by (simp add: workers_set)
qed

text \<open>The group that the specified enumeration selects at the loop indices \<open>(p1, index)\<close>.\<close>

lemma spec_group_shape:
  assumes "0 < G" and "p1 < N" and "index < (N - p1 - 1) choose (G - 1)"
  shows "length (p1 # map (\<lambda>a. p1 + 1 + a) (unrank (N - p1 - 1) (G - 1) index)) = G"
    and "sorted_wrt (<) (p1 # map (\<lambda>a. p1 + 1 + a) (unrank (N - p1 - 1) (G - 1) index))"
    and "\<forall>p\<in>set (map (\<lambda>a. p1 + 1 + a) (unrank (N - p1 - 1) (G - 1) index)). p1 < p \<and> p < N"
proof -
  let ?u = "unrank (N - p1 - 1) (G - 1) index"
  from unrank_shape [OF assms(3)]
  have u: "length ?u = G - 1" "sorted_wrt (<) ?u" "\<forall>a\<in>set ?u. a < N - p1 - 1" by simp_all
  from u(1) assms(1) show "length (p1 # map (\<lambda>a. p1 + 1 + a) ?u) = G" by simp
  from u(3) show range: "\<forall>p\<in>set (map (\<lambda>a. p1 + 1 + a) ?u). p1 < p \<and> p < N" by auto
  from u(2) have "sorted_wrt (<) (map (\<lambda>a. p1 + 1 + a) ?u)"
    by (simp add: sorted_wrt_map)
  with range show "sorted_wrt (<) (p1 # map (\<lambda>a. p1 + 1 + a) ?u)" by simp
qed

lemma spec_group_inj:
  assumes "p1 < N" and "i < (N - p1 - 1) choose (G - 1)"
    and "p1' < N" and "j < (N - p1' - 1) choose (G - 1)"
    and "set (p1 # map (\<lambda>a. p1 + 1 + a) (unrank (N - p1 - 1) (G - 1) i))
         = set (p1' # map (\<lambda>a. p1' + 1 + a) (unrank (N - p1' - 1) (G - 1) j))"
  shows "p1 = p1' \<and> i = j"
proof -
  let ?xs = "p1 # map (\<lambda>a. p1 + 1 + a) (unrank (N - p1 - 1) (G - 1) i)"
  let ?ys = "p1' # map (\<lambda>a. p1' + 1 + a) (unrank (N - p1' - 1) (G - 1) j)"
  have sx: "sorted_wrt (<) ?xs"
  proof -
    from unrank_shape [OF assms(2)] have "sorted_wrt (<) (unrank (N - p1 - 1) (G - 1) i)" by simp
    then have "sorted_wrt (<) (map (\<lambda>a. p1 + 1 + a) (unrank (N - p1 - 1) (G - 1) i))"
      by (simp add: sorted_wrt_map)
    then show ?thesis by auto
  qed
  have sy: "sorted_wrt (<) ?ys"
  proof -
    from unrank_shape [OF assms(4)] have "sorted_wrt (<) (unrank (N - p1' - 1) (G - 1) j)" by simp
    then have "sorted_wrt (<) (map (\<lambda>a. p1' + 1 + a) (unrank (N - p1' - 1) (G - 1) j))"
      by (simp add: sorted_wrt_map)
    then show ?thesis by auto
  qed
  from sx sy assms(5) have eq: "?xs = ?ys"
    by (intro sorted_distinct_set_unique) (simp_all only: strict_sorted_iff)
  then have p: "p1 = p1'" by simp
  from eq have "map (\<lambda>a. p1 + 1 + a) (unrank (N - p1 - 1) (G - 1) i)
         = map (\<lambda>a. p1 + 1 + a) (unrank (N - p1 - 1) (G - 1) j)" by (simp add: p)
  moreover have "inj (\<lambda>a. p1 + 1 + a)" by (simp add: inj_on_def)
  ultimately have "unrank (N - p1 - 1) (G - 1) i = unrank (N - p1 - 1) (G - 1) j"
    by (simp only: inj_map_eq_map)
  with unrank_inj [OF assms(2)] assms(4) p show ?thesis by simp
qed

lemma positive_as_Suc:
  assumes "\<forall>a\<in>set xs. 0 < a"
  shows "xs = map Suc (map (\<lambda>a. a - 1) xs)"
  using assms by (induction xs) simp_all

lemma unrank_surj:
  "length xs = k \<Longrightarrow> sorted_wrt (<) xs \<Longrightarrow> \<forall>a\<in>set xs. a < n
   \<Longrightarrow> \<exists>index. index < n choose k \<and> unrank n k index = xs"
proof (induction n arbitrary: k xs)
  case 0
  then have "xs = []" by (cases xs) auto
  with 0 show ?case by auto
next
  case (Suc n)
  show ?case
  proof (cases xs)
    case Nil
    with Suc.prems show ?thesis by auto
  next
    case (Cons x rest)
    with Suc.prems(1) obtain k' where k: "k = Suc k'" "length rest = k'" by auto
    from Suc.prems(2) Cons have rest_sorted: "sorted_wrt (<) rest" and above: "\<forall>a\<in>set rest. x < a"
      by simp_all
    show ?thesis
    proof (cases "x = 0")
      case True
      from above have pos: "\<forall>a\<in>set rest. 0 < a" by auto
      let ?ys = "map (\<lambda>a. a - 1) rest"
      have rest_eq: "rest = map Suc ?ys" by (rule positive_as_Suc [OF pos])
      have "sorted_wrt (<) (map Suc ?ys)" using rest_sorted rest_eq by simp
      then have ys_sorted: "sorted_wrt (<) ?ys" by (simp add: sorted_wrt_map)
      have ys_below: "\<forall>a\<in>set ?ys. a < n"
        using Suc.prems(3) Cons pos by fastforce
      from Suc.IH [of ?ys k', OF _ ys_sorted ys_below] k(2)
      obtain index where index: "index < n choose k'" "unrank n k' index = ?ys" by auto
      have "unrank (Suc n) k index = 0 # map Suc ?ys"
        using index by (simp add: k(1))
      with rest_eq Cons True have "unrank (Suc n) k index = xs" by simp
      moreover from index(1) have "index < Suc n choose k" by (simp add: k(1))
      ultimately show ?thesis by blast
    next
      case False
      with above have pos: "\<forall>a\<in>set xs. 0 < a" using Cons by auto
      let ?ys = "map (\<lambda>a. a - 1) xs"
      have xs_eq: "xs = map Suc ?ys" by (rule positive_as_Suc [OF pos])
      have "sorted_wrt (<) (map Suc ?ys)" using Suc.prems(2) xs_eq by simp
      then have ys_sorted: "sorted_wrt (<) ?ys" by (simp add: sorted_wrt_map)
      have ys_below: "\<forall>a\<in>set ?ys. a < n"
        using Suc.prems(3) pos by fastforce
      from Suc.IH [of ?ys k, OF _ ys_sorted ys_below] Suc.prems(1)
      obtain index where index: "index < n choose k" "unrank n k index = ?ys" by auto
      have "unrank (Suc n) k (index + (n choose k')) = map Suc ?ys"
        using index by (simp add: k(1))
      with xs_eq have "unrank (Suc n) k (index + (n choose k')) = xs" by simp
      moreover from index(1) have "index + (n choose k') < Suc n choose k" by (simp add: k(1))
      ultimately show ?thesis by blast
    qed
  qed
qed

lemma allIndices_complete:
  assumes "0 < gridDim" and "0 < blockDim" and "p1 < N"
    and "index < numCandidateCombinations code (N - p1 - 1)"
    and "includeInteraction code (findAtomsForCombinationIndex code p1 (N - p1 - 1) index)"
  shows "(p1, index) \<in> set (allIndices code N gridDim blockDim)"
proof -
  let ?b = "p1 mod gridDim"
  let ?t = "index mod blockDim"
  have "(p1, index) \<in> set (workerIndices code N gridDim blockDim ?b ?t)"
    using assms by (auto simp: workerIndices_def strided_residue)
  moreover have "(?b, ?t) \<in> set (workers gridDim blockDim)"
    using assms(1,2) by (simp add: workers_set)
  ultimately show ?thesis unfolding allIndices_def by force
qed

lemma spec_group_complete:
  assumes "0 < G" and "S \<subseteq> {..<N}" and "card S = G"
  shows "\<exists>p1 index. p1 < N \<and> index < (N - p1 - 1) choose (G - 1)
           \<and> set (p1 # map (\<lambda>a. p1 + 1 + a) (unrank (N - p1 - 1) (G - 1) index)) = S"
proof -
  have fin: "finite S" using assms(2) finite_subset by blast
  let ?xs = "sorted_list_of_set S"
  have xs: "set ?xs = S" "sorted_wrt (<) ?xs" "length ?xs = G"
    using fin assms(3) by (simp_all add: strict_sorted_iff)
  with assms(1) obtain p1 rest where split: "?xs = p1 # rest" by (cases ?xs) auto
  with xs have rest: "sorted_wrt (<) rest" "\<forall>p\<in>set rest. p1 < p" "length rest = G - 1"
    by auto
  have p1: "p1 < N" using xs(1) split assms(2) by auto
  have below: "\<forall>p\<in>set rest. p < N" using xs(1) split assms(2) by auto
  let ?ys = "map (\<lambda>p. p - (p1 + 1)) rest"
  have restore: "map (\<lambda>a. p1 + 1 + a) ?ys = rest"
    using rest(2) by (induction rest) auto
  have "sorted_wrt (<) (map (\<lambda>a. p1 + 1 + a) ?ys)" using rest(1) restore by simp
  then have ys_sorted: "sorted_wrt (<) ?ys" by (simp add: sorted_wrt_map)
  have ys_below: "\<forall>a\<in>set ?ys. a < N - p1 - 1" using rest(2) below by fastforce
  from unrank_surj [of ?ys "G - 1" "N - p1 - 1", OF _ ys_sorted ys_below] rest(3)
  obtain index where index: "index < (N - p1 - 1) choose (G - 1)"
    "unrank (N - p1 - 1) (G - 1) index = ?ys" by auto
  have "set (p1 # map (\<lambda>a. p1 + 1 + a) (unrank (N - p1 - 1) (G - 1) index)) = S"
    using index(2) restore split xs(1) by metis
  with p1 index(1) show ?thesis by blast
qed

text \<open>
  C2, for the enumeration of the specification.  Every group that the kernel computes
  has \<open>G\<close> members, is strictly ascending, starts with the anchor \<open>p1\<close> of the loop, has
  all its other members above \<open>p1\<close> and all members below \<open>NUM_ATOMS\<close>; no two computed
  groups have the same set of members.  When no check rejects a combination, every set
  of \<open>G\<close> particles is the member set of a computed group (so of exactly one).
\<close>

theorem computeInteraction_groups_ascending_once:
  assumes "0 < gridDim" and "0 < blockDim" and "0 < G"
  shows "(\<forall>(p1, atoms) \<in> set (allInteractions (specEnumeration G code) numAtoms gridDim blockDim).
            length atoms = G \<and> sorted_wrt (<) atoms \<and> hd atoms = p1
            \<and> (\<forall>p\<in>set (tl atoms). p1 < p) \<and> (\<forall>p\<in>set atoms. p < numAtoms))
         \<and> distinct (map (\<lambda>(p1, atoms). set atoms)
              (allInteractions (specEnumeration G code) numAtoms gridDim blockDim))
         \<and> ((\<forall>atoms. includeInteraction (specEnumeration G code) atoms) \<longrightarrow>
              (\<forall>S. S \<subseteq> {..<numAtoms} \<and> card S = G \<longrightarrow>
                 S \<in> (\<lambda>(p1, atoms). set atoms)
                       ` set (allInteractions (specEnumeration G code) numAtoms gridDim blockDim)))"
proof (intro conjI)
  let ?code = "specEnumeration G code"
  let ?N = numAtoms
  let ?group = "\<lambda>p1 index. p1 # map (\<lambda>a. p1 + 1 + a) (unrank (?N - p1 - 1) (G - 1) index)"
  let ?select = "\<lambda>(p1, index). (p1, ?group p1 index)"
  let ?members = "\<lambda>(p1 :: nat, atoms :: nat list). set atoms"
  have all_eq: "allInteractions ?code ?N gridDim blockDim
                = map ?select (allIndices ?code ?N gridDim blockDim)"
    by (simp add: allInteractions_indices specEnumeration_def)
  have all_set: "set (allInteractions ?code ?N gridDim blockDim)
                 = ?select ` set (allIndices ?code ?N gridDim blockDim)"
    by (simp only: all_eq set_map)
  have valid: "p1 < ?N \<and> index < (?N - p1 - 1) choose (G - 1)"
    if "(p1, index) \<in> set (allIndices ?code ?N gridDim blockDim)" for p1 index
    using allIndices_member [OF that] by (simp add: specEnumeration_def)
  show "\<forall>(p1, atoms) \<in> set (allInteractions ?code ?N gridDim blockDim).
            length atoms = G \<and> sorted_wrt (<) atoms \<and> hd atoms = p1
            \<and> (\<forall>p\<in>set (tl atoms). p1 < p) \<and> (\<forall>p\<in>set atoms. p < ?N)"
  proof (rule ballI)
    fix e
    assume "e \<in> set (allInteractions ?code ?N gridDim blockDim)"
    then have "e \<in> ?select ` set (allIndices ?code ?N gridDim blockDim)"
      by (simp only: all_set)
    then obtain k where mem: "k \<in> set (allIndices ?code ?N gridDim blockDim)"
      and e: "e = ?select k" by (rule imageE)
    obtain p1 index where k: "k = (p1, index)" by (cases k)
    define atoms where "atoms = ?group p1 index"
    have e': "e = (p1, atoms)" by (simp add: e k atoms_def)
    from valid mem k have v: "p1 < ?N" "index < (?N - p1 - 1) choose (G - 1)" by simp_all
    note shape = spec_group_shape [OF assms(3) v]
    have "length atoms = G" unfolding atoms_def by (rule shape(1))
    moreover have "sorted_wrt (<) atoms" unfolding atoms_def by (rule shape(2))
    moreover have "hd atoms = p1" unfolding atoms_def by simp
    moreover have "\<forall>p\<in>set (tl atoms). p1 < p"
      unfolding atoms_def list.sel using shape(3) by blast
    moreover have "\<forall>p\<in>set atoms. p < ?N"
    proof
      fix p
      assume "p \<in> set atoms"
      then have "p = p1 \<or> p \<in> set (map (\<lambda>a. p1 + 1 + a) (unrank (?N - p1 - 1) (G - 1) index))"
        unfolding atoms_def by (simp only: set_ConsD list.set insert_iff)
      with v(1) shape(3) show "p < ?N" by blast
    qed
    ultimately show "case e of (p1, atoms) \<Rightarrow>
            length atoms = G \<and> sorted_wrt (<) atoms \<and> hd atoms = p1
            \<and> (\<forall>p\<in>set (tl atoms). p1 < p) \<and> (\<forall>p\<in>set atoms. p < ?N)"
      unfolding e' prod.case by blast
  qed
  show "distinct (map ?members (allInteractions ?code ?N gridDim blockDim))"
  proof -
    have "map ?members (allInteractions ?code ?N gridDim blockDim)
          = map (\<lambda>(p1, index). set (?group p1 index)) (allIndices ?code ?N gridDim blockDim)"
      unfolding all_eq map_map by (rule map_cong [OF refl]) (simp add: case_prod_unfold)
    moreover have "inj_on (\<lambda>(p1, index). set (?group p1 index))
                     (set (allIndices ?code ?N gridDim blockDim))"
    proof (rule inj_onI)
      fix k k'
      assume a: "k \<in> set (allIndices ?code ?N gridDim blockDim)"
        and b: "k' \<in> set (allIndices ?code ?N gridDim blockDim)"
        and eq: "(case k of (p1, index) \<Rightarrow> set (?group p1 index))
                 = (case k' of (p1, index) \<Rightarrow> set (?group p1 index))"
      obtain p1 i where k: "k = (p1, i)" by (cases k)
      obtain p1' j where k': "k' = (p1', j)" by (cases k')
      from valid a k have va: "p1 < ?N" "i < (?N - p1 - 1) choose (G - 1)" by simp_all
      from valid b k' have vb: "p1' < ?N" "j < (?N - p1' - 1) choose (G - 1)" by simp_all
      from eq have "set (?group p1 i) = set (?group p1' j)"
        unfolding k k' prod.case .
      from spec_group_inj [OF va vb this] show "k = k'" by (simp add: k k')
    qed
    ultimately show ?thesis by (simp only: distinct_map allIndices_distinct simp_thms)
  qed
  show "(\<forall>atoms. includeInteraction ?code atoms) \<longrightarrow>
        (\<forall>S. S \<subseteq> {..<?N} \<and> card S = G \<longrightarrow>
           S \<in> ?members ` set (allInteractions ?code ?N gridDim blockDim))"
  proof (intro impI allI, elim conjE)
    fix S
    assume inc: "\<forall>atoms. includeInteraction ?code atoms" and S: "S \<subseteq> {..<?N}" "card S = G"
    from spec_group_complete [OF assms(3) S]
    obtain p1 index where g: "p1 < ?N" "index < (?N - p1 - 1) choose (G - 1)"
      "set (?group p1 index) = S" by blast
    have "(p1, index) \<in> set (allIndices ?code ?N gridDim blockDim)"
    proof (rule allIndices_complete [OF assms(1,2) g(1)])
      show "index < numCandidateCombinations ?code (?N - p1 - 1)"
        using g(2) by (simp add: specEnumeration_def)
      show "includeInteraction ?code (findAtomsForCombinationIndex ?code p1 (?N - p1 - 1) index)"
        using inc by blast
    qed
    then have "?select (p1, index) \<in> set (allInteractions ?code ?N gridDim blockDim)"
      unfolding all_set by (rule imageI)
    then have "?members (?select (p1, index))
               \<in> ?members ` set (allInteractions ?code ?N gridDim blockDim)"
      by (rule imageI)
    moreover have "?members (?select (p1, index)) = S"
      using g(3) by simp
    ultimately show "S \<in> ?members ` set (allInteractions ?code ?N gridDim blockDim)"
      by (simp only:)
  qed
qed

theorem computeInteraction_groups_ascending_once_witness:
  "(0::nat) < 2 \<and> (0::nat) < 3
   \<and> allInteractions (specEnumeration 3 exampleCode) 4 2 2
       = [(0, [0, 1, 2]), (0, [0, 2, 3]), (0, [0, 1, 3]), (1, [1, 2, 3])]
   \<and> distinct (map (\<lambda>(p1, atoms). set atoms)
        (allInteractions (specEnumeration 3 exampleCode) 4 2 2))"
proof -
  have groups: "allInteractions (specEnumeration 3 exampleCode) 4 2 2
       = [(0, [0, 1, 2]), (0, [0, 2, 3]), (0, [0, 1, 3]), (1, [1, 2, 3])]"
    by (simp add: allInteractions_def workers_def workerInteractions_def specEnumeration_def
        exampleCode_def includeInteraction_def strided.simps eval_nat_numeral upt_rec
        binomial_eq_0)
  have once: "distinct (map (\<lambda>(p1, atoms). set atoms)
        (allInteractions (specEnumeration 3 exampleCode) 4 2 2))"
    using computeInteraction_groups_ascending_once [of 2 2 3 exampleCode 4] by simp
  show ?thesis
    by (intro conjI) (simp, simp, rule groups, rule once)
qed

section \<open>The start indices and the missing barrier\<close>

text \<open>
  C3 at a failing input: 65 particles with one neighbor each, a block of 64 threads (two
  warps), and the legal schedule in which the second warp writes back and loads the
  counts of the second window before the first warp writes back.  The first warp then
  adds the reloaded last cell (the count of the absent particle 127, zero) instead of the
  total of the first window to \<^verbatim>\<open>globalOffset\<close>: the table ends with
  \<open>neighborStartIndex 64 = 64\<close> and \<open>neighborStartIndex 65 = 1\<close>, which is neither
  non-decreasing nor the total 65, and the difference is not the count of particle 64.
\<close>

theorem computeNeighborStartIndices_missing_barrier:
  "legalSchedule 64 secondWarpFirst
   \<and> neighborStartIndex (computeNeighborStartIndices 64 config65 secondWarpFirst exampleCounts) 64 = 64
   \<and> neighborStartIndex (computeNeighborStartIndices 64 config65 secondWarpFirst exampleCounts) 65 = 1
   \<and> numNeighborsForAtom exampleCounts 64 = 1"
  by code_simp

section \<open>Capacity of the pair buffer\<close>



section \<open>Assembly of the neighbor list\<close>

lemma copyPair_frame:
  "neighborPairs (copyPair index mem) = neighborPairs mem"
  "neighborStartIndex (copyPair index mem) = neighborStartIndex mem"
  "numNeighborPairs (copyPair index mem) = numNeighborPairs mem"
  by (simp_all add: copyPair_def Let_def)

lemma copyPairs_frame:
  "neighborPairs (fold copyPair xs mem) = neighborPairs mem
   \<and> neighborStartIndex (fold copyPair xs mem) = neighborStartIndex mem
   \<and> numNeighborPairs (fold copyPair xs mem) = numNeighborPairs mem"
  by (induction xs arbitrary: mem) (simp_all add: copyPair_frame)

lemma filter_length_le_distinct:
  assumes "distinct xs" and "set xs \<subseteq> {..<n}"
  shows "length (filter P xs) \<le> length (filter P [0..<n])"
proof -
  have "length (filter P xs) = card {x \<in> set xs. P x}"
    using assms(1) by (simp add: distinct_length_filter Int_def conj_commute)
  also have "\<dots> \<le> card {x \<in> set [0..<n]. P x}"
    using assms(2) by (intro card_mono) auto
  also have "\<dots> = length (filter P [0..<n])"
    by (simp add: distinct_length_filter Int_def conj_commute)
  finally show ?thesis .
qed

lemma prefix_sum_ranges:
  fixes start c :: "nat \<Rightarrow> nat" and N :: nat
  assumes "\<forall>i\<le>N. start i = (\<Sum>k<i. c k)"
  shows "i < N \<Longrightarrow> start (i + 1) = start i + c i"
    and "i < a \<Longrightarrow> a \<le> N \<Longrightarrow> start (i + 1) \<le> start a"
proof -
  have at: "start i = (\<Sum>k<i. c k)" if "i \<le> N" for i :: nat
    using assms that by blast
  show "start (i + 1) = start i + c i" if "i < N"
    using at [of i] at [of "i + 1"] that by simp
  show "start (i + 1) \<le> start a" if "i < a" "a \<le> N"
  proof -
    have "(\<Sum>k<i + 1. c k) \<le> (\<Sum>k<a. c k)"
      using that by (intro sum_mono2) auto
    with at [of "i + 1"] at [of a] that show ?thesis by simp
  qed
qed

text \<open>
  The state after the passes for the pair indices \<open>xs\<close>, in that order: the cursor of a
  particle counts its pairs among \<open>xs\<close>, and the slots of its range below the cursor
  hold the partners of those pairs.
\<close>

lemma copyPairs_invariant:
  assumes first_below: "\<forall>index<numNeighborPairs mem. fst (neighborPairs mem index) < N"
    and prefix: "\<forall>i\<le>N. neighborStartIndex mem i = (\<Sum>k<i. pairCount mem k)"
    and zero: "\<forall>i<N. numNeighborsForAtom mem i = 0"
    and "distinct xs" and "set xs \<subseteq> {..<numNeighborPairs mem}"
  shows "\<forall>i<N.
           numNeighborsForAtom (fold copyPair xs mem) i
             = length (filter (\<lambda>index. fst (neighborPairs mem index) = i) xs)
           \<and> mset (map (neighbors (fold copyPair xs mem))
                 [neighborStartIndex mem i ..<
                  neighborStartIndex mem i
                    + length (filter (\<lambda>index. fst (neighborPairs mem index) = i) xs)])
             = mset (map (\<lambda>index. snd (neighborPairs mem index))
                      (filter (\<lambda>index. fst (neighborPairs mem index) = i) xs))"
  using assms(4,5)
proof (induction xs rule: rev_induct)
  case Nil
  with zero show ?case by simp
next
  case (snoc index xs)
  define m where "m = fold copyPair xs mem"
  define a where "a = fst (neighborPairs mem index)"
  define j where "j = snd (neighborPairs mem index)"
  define cnt where "cnt = (\<lambda>i ys. length (filter (\<lambda>index. fst (neighborPairs mem index) = i) ys))"
  define start where "start = neighborStartIndex mem"
  from snoc.prems have dist: "distinct xs" "index \<notin> set xs"
    and sub: "set xs \<subseteq> {..<numNeighborPairs mem}" and index: "index < numNeighborPairs mem"
    by auto
  from first_below index have a: "a < N" by (simp add: a_def)
  have ih: "numNeighborsForAtom m i = cnt i xs"
    "mset (map (neighbors m) [start i ..< start i + cnt i xs])
     = mset (map (\<lambda>index. snd (neighborPairs mem index))
              (filter (\<lambda>index. fst (neighborPairs mem index) = i) xs))"
    if "i < N" for i
    using snoc.IH [OF dist(1) sub] that by (simp_all add: m_def cnt_def start_def)
  have frame: "neighborPairs m = neighborPairs mem" "neighborStartIndex m = neighborStartIndex mem"
    using copyPairs_frame [of xs mem] by (simp_all add: m_def)
  have total: "cnt i [0..<numNeighborPairs mem] = pairCount mem i" for i
    by (simp add: cnt_def pairCount_def pairIndicesOf_def)
  have bound: "cnt i xs \<le> pairCount mem i" for i
    unfolding total [symmetric] cnt_def by (rule filter_length_le_distinct [OF dist(1) sub])
  have bound_a: "cnt a xs < pairCount mem a"
  proof -
    have "cnt a (index # xs) \<le> cnt a [0..<numNeighborPairs mem]"
      unfolding cnt_def using dist sub index by (intro filter_length_le_distinct) auto
    then show ?thesis by (simp add: cnt_def a_def total [unfolded cnt_def])
  qed
  note ranges = prefix_sum_ranges [OF prefix, folded start_def]
  define slot where "slot = start a + cnt a xs"
  have step: "fold copyPair (xs @ [index]) mem
              = m\<lparr>numNeighborsForAtom := (numNeighborsForAtom m)(a := cnt a xs + 1),
                  neighbors := (neighbors m)(slot := j)\<rparr>"
    using ih(1) [OF a]
    by (simp add: m_def [symmetric] copyPair_def Let_def frame a_def [symmetric]
        j_def [symmetric] slot_def start_def)
  have slot_in: "start a \<le> slot" "slot < start (a + 1)"
    using bound_a ranges(1) [OF a] by (simp_all add: slot_def)
  have cursors: "numNeighborsForAtom (fold copyPair (xs @ [index]) mem)
                 = (numNeighborsForAtom m)(a := cnt a xs + 1)"
    and cells: "neighbors (fold copyPair (xs @ [index]) mem) = (neighbors m)(slot := j)"
    unfolding step by simp_all
  have cnt_snoc: "cnt i (xs @ [index]) = (if i = a then cnt i xs + 1 else cnt i xs)" for i
    by (auto simp: cnt_def a_def)
  have partners_snoc:
    "mset (map (\<lambda>index. snd (neighborPairs mem index))
        (filter (\<lambda>index. fst (neighborPairs mem index) = i) (xs @ [index])))
     = mset (map (\<lambda>index. snd (neighborPairs mem index))
          (filter (\<lambda>index. fst (neighborPairs mem index) = i) xs))
       + (if i = a then {#j#} else {#})" for i
    by (auto simp: a_def j_def)
  have "numNeighborsForAtom (fold copyPair (xs @ [index]) mem) i = cnt i (xs @ [index])
        \<and> mset (map (neighbors (fold copyPair (xs @ [index]) mem))
              [start i ..< start i + cnt i (xs @ [index])])
          = mset (map (\<lambda>index. snd (neighborPairs mem index))
                   (filter (\<lambda>index. fst (neighborPairs mem index) = i) (xs @ [index])))"
    if i: "i < N" for i
  proof (cases "i = a")
    case True
    have "slot \<notin> set [start a ..< start a + cnt a xs]" by (simp add: slot_def)
    then have same: "map ((neighbors m)(slot := j)) [start a ..< start a + cnt a xs]
                     = map (neighbors m) [start a ..< start a + cnt a xs]"
      by (intro map_cong) auto
    have "[start a ..< start a + (cnt a xs + 1)] = [start a ..< start a + cnt a xs] @ [slot]"
      by (simp add: slot_def)
    then have "mset (map ((neighbors m)(slot := j)) [start a ..< start a + (cnt a xs + 1)])
               = mset (map (neighbors m) [start a ..< start a + cnt a xs]) + {#j#}"
      using same by simp
    then have filled: "mset (map ((neighbors m)(slot := j)) [start a ..< start a + (cnt a xs + 1)])
               = mset (map (\<lambda>index. snd (neighborPairs mem index))
                    (filter (\<lambda>index. fst (neighborPairs mem index) = a) xs)) + {#j#}"
      by (simp only: ih(2) [OF a])
    have n1: "cnt a (xs @ [index]) = cnt a xs + 1"
      by (simp only: cnt_snoc [of a] simp_thms if_True)
    have n2: "mset (map (\<lambda>index. snd (neighborPairs mem index))
                 (filter (\<lambda>index. fst (neighborPairs mem index) = a) (xs @ [index])))
              = mset (map (\<lambda>index. snd (neighborPairs mem index))
                   (filter (\<lambda>index. fst (neighborPairs mem index) = a) xs)) + {#j#}"
      by (simp only: partners_snoc [of a] simp_thms if_True)
    have n3: "numNeighborsForAtom (fold copyPair (xs @ [index]) mem) a = cnt a xs + 1"
      unfolding cursors by simp
    show ?thesis unfolding True n1 n2 n3 cells using filled by blast
  next
    case False
    have outside: "slot \<notin> set [start i ..< start i + cnt i xs]"
    proof (cases "i < a")
      case True
      from ranges(2) [OF True] a have "start (i + 1) \<le> start a" by simp
      moreover have "start i + cnt i xs \<le> start (i + 1)"
        using bound [of i] ranges(1) [OF i] by simp
      ultimately show ?thesis using slot_in by simp
    next
      case False
      with \<open>i \<noteq> a\<close> have "a < i" by simp
      from ranges(2) [OF this] i have "start (a + 1) \<le> start i" by simp
      with slot_in show ?thesis by simp
    qed
    then have same: "map ((neighbors m)(slot := j)) [start i ..< start i + cnt i xs]
                     = map (neighbors m) [start i ..< start i + cnt i xs]"
      by (intro map_cong) auto
    have n1: "cnt i (xs @ [index]) = cnt i xs"
      by (simp only: cnt_snoc [of i] False if_False)
    have n2: "mset (map (\<lambda>index. snd (neighborPairs mem index))
                 (filter (\<lambda>index. fst (neighborPairs mem index) = i) (xs @ [index])))
              = mset (map (\<lambda>index. snd (neighborPairs mem index))
                   (filter (\<lambda>index. fst (neighborPairs mem index) = i) xs))"
      by (simp only: partners_snoc [of i] False if_False add.right_neutral)
    have n3: "numNeighborsForAtom (fold copyPair (xs @ [index]) mem) i = numNeighborsForAtom m i"
      unfolding cursors using False by simp
    show ?thesis unfolding n1 n2 n3 cells same using ih [OF i] by blast
  qed
  then show ?case unfolding cnt_def start_def by blast
qed

text \<open>
  C5: within capacity, with the start indices the exclusive prefix sums of the
  per-particle pair counts and all cursors zero, the kernel writes the partner \<open>j\<close> of
  every candidate pair \<open>(i, j)\<close> at the start index of \<open>i\<close> plus the cursor of \<open>i\<close>;
  afterwards the range \<open>[neighborStartIndex i, neighborStartIndex (i+1))\<close> of
  \<open>neighbors\<close> holds, as a multiset, the partners of the candidate pairs of \<open>i\<close>, and
  the counter of \<open>i\<close> has been overwritten with the number of its pairs.  This holds for
  every order in which the atomic increments take effect.
\<close>

theorem copyPairsToNeighborList_assembles:
  assumes "numNeighborPairs mem \<le> maxNeighborPairs"
    and "0 < numThreads"
    and "mset sched = mset (gridStride numThreads (numNeighborPairs mem))"
    and "\<forall>index<numNeighborPairs mem. fst (neighborPairs mem index) < N"
    and "\<forall>i\<le>N. neighborStartIndex mem i = (\<Sum>k<i. pairCount mem k)"
    and "\<forall>i<N. numNeighborsForAtom mem i = 0"
  shows "\<forall>i<N.
           mset (map (neighbors (copyPairsToNeighborList sched maxNeighborPairs mem))
                  [neighborStartIndex mem i ..< neighborStartIndex mem (i + 1)])
             = partnersOf mem i
           \<and> numNeighborsForAtom (copyPairsToNeighborList sched maxNeighborPairs mem) i
             = pairCount mem i"
proof (intro allI impI)
  fix i
  assume i: "i < N"
  have perm: "mset sched = mset [0..<numNeighborPairs mem]"
    using assms(3) gridStride_mset [OF assms(2)] by simp
  then have dist: "distinct sched" and sub: "set sched \<subseteq> {..<numNeighborPairs mem}"
    using mset_eq_imp_distinct_iff [OF perm] mset_eq_setD [OF perm] by auto
  have run: "copyPairsToNeighborList sched maxNeighborPairs mem = fold copyPair sched mem"
    using assms(1) by (simp add: copyPairsToNeighborList_def)
  let ?P = "\<lambda>index. fst (neighborPairs mem index) = i"
  have filt: "mset (filter ?P sched) = mset (pairIndicesOf mem i)"
    unfolding pairIndicesOf_def mset_filter perm ..
  then have len: "length (filter ?P sched) = pairCount mem i"
    unfolding pairCount_def by (metis size_mset)
  from filt have partners: "mset (map (\<lambda>index. snd (neighborPairs mem index)) (filter ?P sched))
                  = partnersOf mem i"
    unfolding partnersOf_def by (metis mset_map)
  have next_start: "neighborStartIndex mem (i + 1) = neighborStartIndex mem i + pairCount mem i"
    using prefix_sum_ranges(1) [OF assms(5) i] .
  from copyPairs_invariant [OF assms(4,5,6) dist sub] i
  have inv: "numNeighborsForAtom (fold copyPair sched mem) i = length (filter ?P sched)"
    "mset (map (neighbors (fold copyPair sched mem))
        [neighborStartIndex mem i ..< neighborStartIndex mem i + length (filter ?P sched)])
     = mset (map (\<lambda>index. snd (neighborPairs mem index)) (filter ?P sched))"
    by blast+
  show "mset (map (neighbors (copyPairsToNeighborList sched maxNeighborPairs mem))
                  [neighborStartIndex mem i ..< neighborStartIndex mem (i + 1)])
             = partnersOf mem i
           \<and> numNeighborsForAtom (copyPairsToNeighborList sched maxNeighborPairs mem) i
             = pairCount mem i"
    unfolding run next_start using inv unfolding len partners by blast
qed

theorem copyPairsToNeighborList_assembles_witness:
  "numNeighborPairs examplePairs \<le> 4 \<and> (0::nat) < 2
   \<and> mset [1, 2, 0] = mset (gridStride 2 (numNeighborPairs examplePairs))
   \<and> map (neighbors (copyPairsToNeighborList [1, 2, 0] 4 examplePairs)) [0, 1, 2] = [2, 1, 2]
   \<and> mset (map (neighbors (copyPairsToNeighborList [1, 2, 0] 4 examplePairs))
        [neighborStartIndex examplePairs 0 ..< neighborStartIndex examplePairs (0 + 1)])
      = partnersOf examplePairs 0
   \<and> numNeighborsForAtom (copyPairsToNeighborList [1, 2, 0] 4 examplePairs) 0 = 2"
proof -
  have cap: "numNeighborPairs examplePairs \<le> 4" by (simp add: examplePairs_def)
  have sched: "mset [1, 2, 0] = mset (gridStride 2 (numNeighborPairs examplePairs))"
    by (simp add: examplePairs_def gridStride_def strided.simps eval_nat_numeral upt_rec)
  have below: "\<forall>index<numNeighborPairs examplePairs. fst (neighborPairs examplePairs index) < 3"
    by (simp add: examplePairs_def)
  have counts: "pairCount examplePairs 0 = 2" "pairCount examplePairs (Suc 0) = 1"
    "pairCount examplePairs 2 = 0"
    by (simp_all add: pairCount_def pairIndicesOf_def examplePairs_def upt_rec)
  have starts: "neighborStartIndex examplePairs 0 = 0" "neighborStartIndex examplePairs (Suc 0) = 2"
    "neighborStartIndex examplePairs 2 = 3" "neighborStartIndex examplePairs 3 = 3"
    by (simp_all add: examplePairs_def)
  have prefix: "\<forall>i\<le>3. neighborStartIndex examplePairs i = (\<Sum>k<i. pairCount examplePairs k)"
  proof (intro allI impI)
    fix i :: nat
    assume "i \<le> 3"
    then consider "i = 0" | "i = 1" | "i = 2" | "i = 3" by linarith
    then show "neighborStartIndex examplePairs i = (\<Sum>k<i. pairCount examplePairs k)"
      by cases (simp_all add: counts starts lessThan_nat_numeral lessThan_Suc)
  qed
  have zero: "\<forall>i<3. numNeighborsForAtom examplePairs i = 0" by (simp add: examplePairs_def)
  have cells: "map (neighbors (copyPairsToNeighborList [1, 2, 0] 4 examplePairs)) [0, 1, 2]
               = [2, 1, 2]"
    by (simp add: copyPairsToNeighborList_def copyPair_def examplePairs_def Let_def)
  have all: "\<forall>i<3.
           mset (map (neighbors (copyPairsToNeighborList [1, 2, 0] 4 examplePairs))
                  [neighborStartIndex examplePairs i ..< neighborStartIndex examplePairs (i + 1)])
             = partnersOf examplePairs i
           \<and> numNeighborsForAtom (copyPairsToNeighborList [1, 2, 0] 4 examplePairs) i
             = pairCount examplePairs i"
    by (rule copyPairsToNeighborList_assembles [OF cap zero_less_numeral sched below prefix zero])
  then have range: "mset (map (neighbors (copyPairsToNeighborList [1, 2, 0] 4 examplePairs))
        [neighborStartIndex examplePairs 0 ..< neighborStartIndex examplePairs (0 + 1)])
      = partnersOf examplePairs 0"
    and cursor: "numNeighborsForAtom (copyPairsToNeighborList [1, 2, 0] 4 examplePairs) 0
                 = pairCount examplePairs 0"
    by (simp_all only: zero_less_numeral)
  show ?thesis
    by (intro conjI) (rule cap, simp, rule sched, rule cells, rule range,
        simp only: cursor counts)
qed

section \<open>Order independence of the fixed-point accumulation\<close>

lemma atomicAdd_commute:
  "atomicAdd a u (atomicAdd b v mem) = atomicAdd b v (atomicAdd a u mem)"
  by (auto simp: atomicAdd_def fun_eq_iff)

lemma runAdds_permute:
  assumes "mset adds1 = mset adds2"
  shows "runAdds adds1 forceBuffers = runAdds adds2 forceBuffers"
proof -
  have "fold (\<lambda>(address, val). atomicAdd address val) adds1
        = fold (\<lambda>(address, val). atomicAdd address val) adds2"
    by (rule fold_multiset_equiv [OF _ assms])
       (auto simp: fun_eq_iff atomicAdd_commute)
  then show ?thesis by (simp add: runAdds_def)
qed

lemma runAdds_append: "runAdds (xs @ ys) mem = runAdds ys (runAdds xs mem)"
  by (simp add: runAdds_def)

lemma storeForce_as_adds:
  "storeForce P atom force mem = runAdds (storeForceAdds P (atom, force)) mem"
  by (simp add: storeForce_def storeForceAdds_def runAdds_def Let_def)

lemma runCalls_as_adds:
  "runCalls P calls mem = runAdds (concat (map (storeForceAdds P) calls)) mem"
proof (induction calls arbitrary: mem)
  case Nil
  then show ?case by (simp add: runCalls_def runAdds_def)
next
  case (Cons c calls)
  obtain atom force where c: "c = (atom, force)" by (cases c)
  have "runCalls P (c # calls) mem = runCalls P calls (storeForce P atom force mem)"
    by (simp add: runCalls_def c)
  also have "\<dots> = runAdds (concat (map (storeForceAdds P) calls))
                    (runAdds (storeForceAdds P c) mem)"
    by (simp add: Cons.IH storeForce_as_adds c)
  finally show ?case by (simp add: runAdds_append)
qed

lemma mset_concat_map_cong:
  assumes "mset xs = mset ys"
  shows "mset (concat (map f xs)) = mset (concat (map f ys))"
proof -
  have "mset (concat (map f zs)) = (\<Sum>z\<in>#mset zs. mset (f z))" for zs
    by (induction zs) simp_all
  with assms show ?thesis by simp
qed

text \<open>
  C7: the contents of the force buffer do not depend on the order of the
  \<open>storeForce\<close> calls nor on how their atomic additions interleave.  Two runs that issue
  the same calls (as multisets), each performing its atomic additions in an arbitrary
  order, leave the same 64-bit words in every cell, namely those that the calls leave when
  run one after the other.
\<close>

theorem storeForce_order_independent:
  assumes "mset calls1 = mset calls2"
    and "mset adds1 = mset (concat (map (storeForceAdds P) calls1))"
    and "mset adds2 = mset (concat (map (storeForceAdds P) calls2))"
  shows "runAdds adds1 forceBuffers = runAdds adds2 forceBuffers
         \<and> runAdds adds1 forceBuffers = runCalls P calls1 forceBuffers"
proof -
  have "mset adds1 = mset adds2"
    using assms mset_concat_map_cong [OF assms(1), of "storeForceAdds P"] by simp
  then have "runAdds adds1 forceBuffers = runAdds adds2 forceBuffers"
    by (rule runAdds_permute)
  moreover have "runAdds adds1 forceBuffers = runCalls P calls1 forceBuffers"
    unfolding runCalls_as_adds by (rule runAdds_permute [OF assms(2)])
  ultimately show ?thesis by simp
qed

theorem storeForce_order_independent_witness:
  "mset [(0, exampleForceA), (1, exampleForceB)] = mset [(1, exampleForceB), (0, exampleForceA)]
   \<and> runAdds [(0, toFixedPoint (1 / 2)), (1, toFixedPoint (- 5 / 2)), (3, toFixedPoint 0),
               (2, toFixedPoint (- 1 / 4)), (5, toFixedPoint (1 / 8)), (4, toFixedPoint 3)]
        (\<lambda>k. 0)
      = runAdds [(5, toFixedPoint (1 / 8)), (3, toFixedPoint 0), (1, toFixedPoint (- 5 / 2)),
                 (4, toFixedPoint 3), (2, toFixedPoint (- 1 / 4)), (0, toFixedPoint (1 / 2))]
          (\<lambda>k. 0)
   \<and> runCalls 2 [(0, exampleForceA), (1, exampleForceB)] (\<lambda>k. 0) 2 = 0xFFFFFFFFC0000000"
proof -
  let ?calls1 = "[(0, exampleForceA), (1, exampleForceB)]"
  let ?calls2 = "[(1, exampleForceB), (0, exampleForceA)]"
  let ?adds1 = "[(0, toFixedPoint (1 / 2)), (1, toFixedPoint (- 5 / 2)), (3, toFixedPoint 0),
               (2, toFixedPoint (- 1 / 4)), (5, toFixedPoint (1 / 8)), (4::nat, toFixedPoint 3)]"
  let ?adds2 = "[(5, toFixedPoint (1 / 8)), (3, toFixedPoint 0), (1, toFixedPoint (- 5 / 2)),
                 (4, toFixedPoint 3), (2, toFixedPoint (- 1 / 4)), (0::nat, toFixedPoint (1 / 2))]"
  have calls: "mset ?calls1 = mset ?calls2" by (simp add: add.commute)
  have a1: "mset ?adds1 = mset (concat (map (storeForceAdds 2) ?calls1))"
    by (simp add: storeForceAdds_def exampleForceA_def exampleForceB_def eval_nat_numeral ac_simps)
  have a2: "mset ?adds2 = mset (concat (map (storeForceAdds 2) ?calls2))"
    by (simp add: storeForceAdds_def exampleForceA_def exampleForceB_def eval_nat_numeral ac_simps)
  have cell: "runCalls 2 ?calls1 (\<lambda>k. 0) 2 = 0xFFFFFFFFC0000000"
    by (simp add: runCalls_def storeForce_def atomicAdd_def toFixedPoint_def truncateToZero_def
        exampleForceA_def exampleForceB_def Let_def)
  from storeForce_order_independent [OF calls a1 a2, of "\<lambda>k. 0"] calls cell show ?thesis
    by simp
qed

section \<open>The periodic box check of the Gay-Berne force\<close>

text \<open>
  C8, as stated, fails: with the cutoff-periodic method, a cutoff of 1 and a box whose
  first edge is 1.9999995 (less than twice the cutoff, but not less than 1.999999 times
  the cutoff), \<open>calculateForce\<close> throws nothing and returns an energy.
\<close>

theorem calculateForce_box_below_twice_cutoff_counterexample:
  "nonbondedMethod exampleForce = CutoffPeriodic
   \<and> exampleBox 1.9999995 3 3 0 0 < 2 * cutoffDistance exampleForce
   \<and> calculateForce (\<lambda>positions boxVectors i j sigma epsilon. 0) exampleForce zeroVectors zeroVectors
        (exampleBox 1.9999995 3 3) = Inr (0, zeroVectors)"
  by (simp add: calculateForce_def exampleForce_def exampleBox_def standardInteractions_def
      exceptionInteractions_def)

text \<open>
  C8, amended: when the nonbonded method is cutoff-periodic and one of the three box
  edges \<open>boxVectors k k\<close> is smaller than 1.999999 times the cutoff distance,
  \<open>calculateForce\<close> throws the exception, before any interaction is computed; no energy
  and no forces are returned.
\<close>

theorem calculateForce_throws_on_small_box:
  assumes "nonbondedMethod this = CutoffPeriodic"
    and "boxVectors 0 0 < 1.999999 * cutoffDistance this
         \<or> boxVectors 1 1 < 1.999999 * cutoffDistance this
         \<or> boxVectors 2 2 < 1.999999 * cutoffDistance this"
  shows "calculateForce computeOneInteraction this positions forces boxVectors
         = Inl (OpenMMException
             ''The periodic box size has decreased to less than twice the nonbonded cutoff.'')"
  using assms by (simp add: calculateForce_def Let_def)

theorem calculateForce_throws_on_small_box_witness:
  "nonbondedMethod exampleForce = CutoffPeriodic
   \<and> exampleBox 3 1.5 3 1 1 < 1.999999 * cutoffDistance exampleForce
   \<and> calculateForce (\<lambda>positions boxVectors i j sigma epsilon. 0) exampleForce zeroVectors zeroVectors
        (exampleBox 3 1.5 3)
      = Inl (OpenMMException
          ''The periodic box size has decreased to less than twice the nonbonded cutoff.'')"
proof -
  have periodic: "nonbondedMethod exampleForce = CutoffPeriodic"
    by (simp add: exampleForce_def)
  have small: "exampleBox 3 1.5 3 1 1 < 1.999999 * cutoffDistance exampleForce"
    by (simp add: exampleForce_def exampleBox_def)
  then have edges: "exampleBox 3 1.5 3 0 0 < 1.999999 * cutoffDistance exampleForce
         \<or> exampleBox 3 1.5 3 1 1 < 1.999999 * cutoffDistance exampleForce
         \<or> exampleBox 3 1.5 3 2 2 < 1.999999 * cutoffDistance exampleForce"
    by blast
  from calculateForce_throws_on_small_box
         [of exampleForce "exampleBox 3 1.5 3" "\<lambda>positions boxVectors i j sigma epsilon. 0"
             zeroVectors zeroVectors, OF periodic edges]
       periodic small
  show ?thesis by simp
qed

section \<open>The effect of \<open>computeInteraction\<close> on the energy buffer\<close>

lemma fold_concat_fold: "fold f (concat xss) s = fold (fold f) xss s"
  by (induction xss arbitrary: s) simp_all

lemma block_energy:
  "fold (addWorkerEnergy code N gridDim blockDim) (map (\<lambda>threadIdx. (b, threadIdx)) [0..<n])
      energyBuffer slot
   = (if b * blockDim \<le> slot \<and> slot < b * blockDim + n
      then energyBuffer slot + workerEnergy code N gridDim blockDim b (slot - b * blockDim)
      else energyBuffer slot)"
proof (induction n)
  case 0
  then show ?case by simp
next
  case (Suc n)
  let ?before = "fold (addWorkerEnergy code N gridDim blockDim)
                   (map (\<lambda>threadIdx. (b, threadIdx)) [0..<n]) energyBuffer"
  have "fold (addWorkerEnergy code N gridDim blockDim)
          (map (\<lambda>threadIdx. (b, threadIdx)) [0..<Suc n]) energyBuffer slot
        = addWorkerEnergy code N gridDim blockDim (b, n) ?before slot"
    by simp
  also have "\<dots> = (if slot = b * blockDim + n
                    then ?before slot + workerEnergy code N gridDim blockDim b n
                    else ?before slot)"
    by (simp add: addWorkerEnergy_def)
  finally show ?case
    unfolding Suc.IH by (cases "slot = b * blockDim + n") auto
qed

lemma grid_energy:
  assumes "0 < blockDim"
  shows "fold (fold (addWorkerEnergy code N gridDim blockDim))
           (map (\<lambda>blockIdx. map (\<lambda>threadIdx. (blockIdx, threadIdx)) [0..<blockDim]) [0..<g])
           energyBuffer slot
         = (if slot < g * blockDim
            then energyBuffer slot
                 + workerEnergy code N gridDim blockDim (slot div blockDim) (slot mod blockDim)
            else energyBuffer slot)"
proof (induction g)
  case 0
  then show ?case by simp
next
  case (Suc g)
  let ?before = "fold (fold (addWorkerEnergy code N gridDim blockDim))
           (map (\<lambda>blockIdx. map (\<lambda>threadIdx. (blockIdx, threadIdx)) [0..<blockDim]) [0..<g])
           energyBuffer"
  have step: "fold (fold (addWorkerEnergy code N gridDim blockDim))
           (map (\<lambda>blockIdx. map (\<lambda>threadIdx. (blockIdx, threadIdx)) [0..<blockDim]) [0..<Suc g])
           energyBuffer slot
        = (if g * blockDim \<le> slot \<and> slot < g * blockDim + blockDim
           then ?before slot + workerEnergy code N gridDim blockDim g (slot - g * blockDim)
           else ?before slot)"
    by (simp add: block_energy)
  show ?case
  proof (cases "g * blockDim \<le> slot \<and> slot < g * blockDim + blockDim")
    case True
    have d: "slot div blockDim = g"
      by (rule div_nat_eqI) (use True in \<open>simp_all add: mult.commute\<close>)
    have m: "slot mod blockDim = slot - g * blockDim"
      by (simp add: modulo_nat_def d)
    from True have "\<not> slot < g * blockDim" by simp
    with True d m show ?thesis unfolding step Suc.IH by simp
  next
    case False
    then have "slot < Suc g * blockDim \<longleftrightarrow> slot < g * blockDim" by auto
    with False show ?thesis unfolding step Suc.IH by simp
  qed
qed

text \<open>
  C9: the kernel never clears the energy buffer.  Its effect on the buffer is one
  addition per worker: the slot \<open>blockIdx*blockDim + threadIdx\<close> of each of the
  \<open>gridDim*blockDim\<close> workers holds its previous value plus the energy of that worker,
  and every other slot is unchanged.  So the buffer holds the energies of the step
  only if the caller has zeroed it.
\<close>

theorem computeInteraction_energyBuffer:
  assumes "0 < blockDim"
  shows "computeInteraction code numAtoms gridDim blockDim energyBuffer slot
         = (if slot < gridDim * blockDim
            then energyBuffer slot
                 + workerEnergy code numAtoms gridDim blockDim (slot div blockDim) (slot mod blockDim)
            else energyBuffer slot)"
  unfolding computeInteraction_def workers_def fold_concat_fold
  by (rule grid_energy [OF assms])

theorem computeInteraction_energyBuffer_witness:
  "(0::nat) < 2 \<and> computeInteraction exampleCode 3 2 2 (\<lambda>k. 10) 1 = 11
   \<and> computeInteraction exampleCode 3 2 2 (\<lambda>k. 10) 4 = 10"
proof -
  have e: "workerEnergy exampleCode 3 2 2 0 1 = 1"
    by (simp add: workerEnergy_def workerInteractions_def strided.simps exampleCode_def
        includeInteraction_def)
  from computeInteraction_energyBuffer [of 2 exampleCode 3 2 "\<lambda>k. 10" 1]
       computeInteraction_energyBuffer [of 2 exampleCode 3 2 "\<lambda>k. 10" 4] e
  show ?thesis by simp
qed

section \<open>Padding slots of the last tile\<close>

lemma concat_pairs_member:
  assumes "k < length (concat (map (\<lambda>a. map (Pair a) (f a)) xs))"
  shows "\<exists>a b. concat (map (\<lambda>a. map (Pair a) (f a)) xs) ! k = (a, b) \<and> b \<in> set (f a)"
proof -
  from assms have "concat (map (\<lambda>a. map (Pair a) (f a)) xs) ! k
                   \<in> set (concat (map (\<lambda>a. map (Pair a) (f a)) xs))"
    by (rule nth_mem)
  then show ?thesis by auto
qed

text \<open>
  C10: the loop over a tile tests all \<open>TILE_SIZE\<close> slots from \<open>block2*TILE_SIZE\<close> on,
  also those at or beyond \<open>NUM_ATOMS\<close> in the last tile, but a slot that it accepts
  is above \<open>atom1\<close> and below \<open>NUM_ATOMS\<close>.  After the kernel the counter of every
  particle is the number of its accepted partners, all below \<open>NUM_ATOMS\<close>, and a slot
  of the pair buffer that has changed holds a pair \<open>(atom1, atom2)\<close> with
  \<open>atom1 < atom2 < NUM_ATOMS\<close>.
\<close>

theorem findNeighbors_ignores_padding:
  assumes "0 < numThreads"
    and "mset sched = mset (gridStride numThreads (NUM_ATOMS cfg))"
  shows "set (tileIncluded cfg box ibox posq exclusions exclusionStartIndex atom1 block2)
           = {atom2 \<in> {block2 * TILE_SIZE cfg..<(block2 + 1) * TILE_SIZE cfg}.
                includeAtom cfg box ibox posq exclusions exclusionStartIndex atom1 atom2}
         \<and> (\<forall>atom2\<in>set (tileIncluded cfg box ibox posq exclusions exclusionStartIndex atom1 block2).
              atom1 < atom2 \<and> atom2 < NUM_ATOMS cfg)
         \<and> (\<forall>a<NUM_ATOMS cfg.
              numNeighborsForAtom
                (findNeighbors sched cfg box ibox posq maxNeighborPairs exclusions exclusionStartIndex mem) a
                = length (acceptedFor cfg box ibox posq exclusions exclusionStartIndex mem a)
              \<and> (\<forall>atom2\<in>set (acceptedFor cfg box ibox posq exclusions exclusionStartIndex mem a).
                    a < atom2 \<and> atom2 < NUM_ATOMS cfg))
         \<and> (\<forall>s. neighborPairs
                  (findNeighbors sched cfg box ibox posq maxNeighborPairs exclusions exclusionStartIndex mem) s
                = neighborPairs mem s
              \<or> (fst (neighborPairs
                  (findNeighbors sched cfg box ibox posq maxNeighborPairs exclusions exclusionStartIndex mem) s)
                 < snd (neighborPairs
                  (findNeighbors sched cfg box ibox posq maxNeighborPairs exclusions exclusionStartIndex mem) s)
                 \<and> snd (neighborPairs
                  (findNeighbors sched cfg box ibox posq maxNeighborPairs exclusions exclusionStartIndex mem) s)
                   < NUM_ATOMS cfg))"
proof (intro conjI)
  let ?accepted = "acceptedFor cfg box ibox posq exclusions exclusionStartIndex mem"
  let ?mem' = "findNeighbors sched cfg box ibox posq maxNeighborPairs exclusions exclusionStartIndex mem"
  let ?ps = "concat (map (\<lambda>a. map (Pair a) (?accepted a)) sched)"
  show "set (tileIncluded cfg box ibox posq exclusions exclusionStartIndex atom1 block2)
           = {atom2 \<in> {block2 * TILE_SIZE cfg..<(block2 + 1) * TILE_SIZE cfg}.
                includeAtom cfg box ibox posq exclusions exclusionStartIndex atom1 atom2}"
    by (auto simp: tileIncluded_def)
  show "\<forall>atom2\<in>set (tileIncluded cfg box ibox posq exclusions exclusionStartIndex atom1 block2).
              atom1 < atom2 \<and> atom2 < NUM_ATOMS cfg"
    using includeAtom_range by (auto simp: tileIncluded_def)
  have perm: "mset sched = mset [0..<NUM_ATOMS cfg]"
    using assms(2) gridStride_mset [OF assms(1)] by simp
  then have members: "set sched = {..<NUM_ATOMS cfg}"
    using mset_eq_setD [OF perm] by auto
  have effect: "appended maxNeighborPairs ?ps mem ?mem'"
    and counters: "\<And>a. numNeighborsForAtom ?mem' a
               = (if a \<in> set sched then length (?accepted a) else numNeighborsForAtom mem a)"
    using findNeighbors_effect [where sched = sched and cfg = cfg and box = box and ibox = ibox
        and posq = posq and maxPairs = maxNeighborPairs and exclusions = exclusions
        and exclusionStartIndex = exclusionStartIndex and mem = mem] by blast+
  show "\<forall>a<NUM_ATOMS cfg.
              numNeighborsForAtom ?mem' a = length (?accepted a)
              \<and> (\<forall>atom2\<in>set (?accepted a). a < atom2 \<and> atom2 < NUM_ATOMS cfg)"
  proof (intro allI impI conjI ballI)
    fix a
    assume "a < NUM_ATOMS cfg"
    with members counters [of a] show "numNeighborsForAtom ?mem' a = length (?accepted a)" by simp
  next
    fix a atom2
    assume "atom2 \<in> set (?accepted a)"
    from includeAtom_range [OF acceptedFor_member [OF this]]
    show "a < atom2" and "atom2 < NUM_ATOMS cfg" by simp_all
  qed
  show "\<forall>s. neighborPairs ?mem' s = neighborPairs mem s
              \<or> (fst (neighborPairs ?mem' s) < snd (neighborPairs ?mem' s)
                 \<and> snd (neighborPairs ?mem' s) < NUM_ATOMS cfg)"
  proof
    fix s
    from effect have "neighborPairs ?mem' s = neighborPairs mem s
            \<or> (numNeighborPairs mem \<le> s \<and> s < numNeighborPairs mem + length ?ps
                \<and> neighborPairs ?mem' s = ?ps ! (s - numNeighborPairs mem))"
      unfolding appended_def by blast
    then show "neighborPairs ?mem' s = neighborPairs mem s
              \<or> (fst (neighborPairs ?mem' s) < snd (neighborPairs ?mem' s)
                 \<and> snd (neighborPairs ?mem' s) < NUM_ATOMS cfg)"
    proof
      assume "neighborPairs ?mem' s = neighborPairs mem s"
      then show ?thesis by blast
    next
      assume w: "numNeighborPairs mem \<le> s \<and> s < numNeighborPairs mem + length ?ps
                \<and> neighborPairs ?mem' s = ?ps ! (s - numNeighborPairs mem)"
      then have "s - numNeighborPairs mem < length ?ps" by linarith
      from concat_pairs_member [OF this]
      obtain a b where ab: "?ps ! (s - numNeighborPairs mem) = (a, b)" "b \<in> set (?accepted a)"
        by blast
      from includeAtom_range [OF acceptedFor_member [OF ab(2)]] ab(1) w
      show ?thesis by simp
    qed
  qed
qed

theorem findNeighbors_ignores_padding_witness:
  "(0::nat) < 2 \<and> mset [1, 0, 2] = mset (gridStride 2 (NUM_ATOMS exampleConfig))
   \<and> 3 \<in> {1 * TILE_SIZE exampleConfig..<(1 + 1) * TILE_SIZE exampleConfig}
   \<and> \<not> 3 < NUM_ATOMS exampleConfig
   \<and> vw (delta False (examplePosq 1) (examplePosq 3) exampleNoBox exampleNoBox)
       < CUTOFF_SQUARED exampleConfig
   \<and> tileIncluded exampleConfig exampleNoBox exampleNoBox examplePosq (\<lambda>k. 0) (\<lambda>k. 0) 1 1 = [2]
   \<and> numNeighborsForAtom
        (findNeighbors [1, 0, 2] exampleConfig exampleNoBox exampleNoBox examplePosq 5
           (\<lambda>k. 0) (\<lambda>k. 0) exampleTiles) 1 = 1"
proof -
  have slot: "3 \<in> {1 * TILE_SIZE exampleConfig..<(1 + 1) * TILE_SIZE exampleConfig}"
    "\<not> 3 < NUM_ATOMS exampleConfig"
    by (simp_all add: exampleConfig_def)
  have near: "vw (delta False (examplePosq 1) (examplePosq 3) exampleNoBox exampleNoBox)
       < CUTOFF_SQUARED exampleConfig"
    by (simp add: delta_def examplePosq_def exampleConfig_def make_real4_def Let_def)
  have "1 < NUM_ATOMS exampleConfig" by (simp add: exampleConfig_def)
  with findNeighbors_ignores_padding [OF zero_less_numeral example_sched,
      where maxNeighborPairs = 5 and box = exampleNoBox and ibox = exampleNoBox
        and posq = examplePosq and exclusions = "\<lambda>k. 0" and exclusionStartIndex = "\<lambda>k. 0"
        and mem = exampleTiles and ?atom1.0 = 1 and ?block2.0 = 1]
  have "numNeighborsForAtom
        (findNeighbors [1, 0, 2] exampleConfig exampleNoBox exampleNoBox examplePosq 5
           (\<lambda>k. 0) (\<lambda>k. 0) exampleTiles) 1
        = length (acceptedFor exampleConfig exampleNoBox exampleNoBox examplePosq (\<lambda>k. 0) (\<lambda>k. 0)
                    exampleTiles 1)"
    by blast
  then have counted: "numNeighborsForAtom
        (findNeighbors [1, 0, 2] exampleConfig exampleNoBox exampleNoBox examplePosq 5
           (\<lambda>k. 0) (\<lambda>k. 0) exampleTiles) 1 = 1"
    by (simp add: example_accepted(2) [unfolded One_nat_def])
  show ?thesis
    by (intro conjI) (simp, rule example_sched, rule slot(1), rule slot(2), rule near,
        rule example_tileIncluded(4), rule counted)
qed


end
